theory Spec2Isabelle
  imports Main "HOL-Library.Word"
begin

text \<open>
  A model of the multi-agent pipeline with a blackboard and iteration budgets: three
  agents (UI/UX, frontend, backend) read one shared message board, a coordinator polls
  them in a fixed order in cycles, and the run ends after three idle cycles or twenty
  cycles. The repository holds a second, simpler variant of the same program, without
  blackboard, budgets or cycle limit; it is not modelled here.
\<close>

section \<open>Strings of the source language\<close>

text \<open>
  A TypeScript string is a sequence of UTF-16 code units, and \<open>length\<close>, \<open>slice\<close>,
  \<open>split\<close> and \<open>trim\<close> all count code units. A code unit is a 16-bit word.
\<close>

type_synonym jschar = "16 word"
type_synonym jsstring = "jschar list"

text \<open>
  The code units that \<open>String.prototype.trim\<close> strips: the WhiteSpace and
  LineTerminator productions of ECMAScript (tab, LF, VT, FF, CR, space, NBSP, U+1680,
  U+2000 to U+200A, U+2028, U+2029, U+202F, U+205F, U+3000 and U+FEFF).
\<close>

definition isWhiteSpace :: "jschar \<Rightarrow> bool" where
  "isWhiteSpace c =
     (c = 0x09 \<or> c = 0x0A \<or> c = 0x0B \<or> c = 0x0C \<or> c = 0x0D \<or> c = 0x20 \<or> c = 0xA0
      \<or> c = 0x1680 \<or> (0x2000 \<le> c \<and> c \<le> 0x200A) \<or> c = 0x2028 \<or> c = 0x2029
      \<or> c = 0x202F \<or> c = 0x205F \<or> c = 0x3000 \<or> c = 0xFEFF)"

text \<open>\<open>s.trim()\<close>: strip white space at both ends.\<close>

definition js_trim :: "jsstring \<Rightarrow> jsstring" where
  "js_trim s = rev (dropWhile isWhiteSpace (rev (dropWhile isWhiteSpace s)))"

text \<open>
  \<open>s.split('\n')\<close>: the pieces between line feeds (code unit 0x0A). The result is
  never empty: the empty string splits into one empty piece.
\<close>

fun js_split_lf :: "jsstring \<Rightarrow> jsstring list" where
  "js_split_lf [] = [[]]"
| "js_split_lf (c # cs) =
     (if c = 0x0A then [] # js_split_lf cs
      else (case js_split_lf cs of
              [] \<Rightarrow> [[c]]
            | l # ls \<Rightarrow> (c # l) # ls))"

text \<open>
  \<open>s.slice(0, e)\<close> for an integral \<open>e\<close>: a negative end counts from the end of the
  string, and the end is clamped to the range from 0 to the length.
\<close>

definition js_slice0 :: "jsstring \<Rightarrow> int \<Rightarrow> jsstring" where
  "js_slice0 s e =
     (let len = int (length s);
          to = (if e < 0 then max (len + e) 0 else min e len)
      in take (nat to) s)"

text \<open>The three full stops of the template literal in \<open>summarizeContent\<close>.\<close>

definition ellipsis :: jsstring where
  "ellipsis = [0x2E, 0x2E, 0x2E]"

section \<open>Summaries\<close>

text \<open>
  \<^verbatim>\<open>
  function summarizeContent(content: string, maxLength = 200): string {
    const firstLine = content.split('\n').find((line) => line.trim().length > 0) ?? '';
    const trimmed = firstLine.trim();
    if (trimmed.length <= maxLength) return trimmed;
    return `${trimmed.slice(0, maxLength - 3)}...`;
  }
  \<close>
  \<open>maxLength\<close> is a number of the source; the model takes it integral.
\<close>

definition firstLine :: "jsstring \<Rightarrow> jsstring" where
  "firstLine content =
     (case List.find (\<lambda>line. length (js_trim line) > 0) (js_split_lf content) of
        Some line \<Rightarrow> line
      | None \<Rightarrow> [])"

definition summarizeContent :: "jsstring \<Rightarrow> int \<Rightarrow> jsstring" where
  "summarizeContent content maxLength =
     (let trimmed = js_trim (firstLine content)
      in if int (length trimmed) \<le> maxLength then trimmed
         else js_slice0 trimmed (maxLength - 3) @ ellipsis)"

definition defaultMaxLength :: int where
  "defaultMaxLength = 200"

section \<open>Messages, the board and the blackboard\<close>

datatype AgentName = Uiux | Frontend | Backend

text \<open>The author of a message: \<open>'user' | AgentName\<close>.\<close>

datatype Author = User | ByAgent AgentName

datatype MessageKind = FeatureRequest | UiuxSpec | FrontendPlan | BackendPlan

text \<open>
  \<open>BoardMessage\<close>. The field \<open>createdAt\<close> holds the wall-clock time of creation; no
  decision of the program reads it, and it is left out. The field \<open>id\<close> is a number
  counted up from 1 and is a natural number here.
\<close>

record BoardMessage =
  id :: nat
  author :: Author
  kind :: MessageKind
  content :: jsstring

record BlackboardState =
  featureRequest :: "BoardMessage option"
  uiuxSpec :: "BoardMessage option"
  frontendPlan :: "BoardMessage option"
  backendPlan :: "BoardMessage option"

definition emptyBlackboard :: BlackboardState where
  "emptyBlackboard =
     \<lparr>featureRequest = None, uiuxSpec = None, frontendPlan = None, backendPlan = None\<rparr>"

text \<open>Reading the blackboard field that belongs to a kind of message.\<close>

fun lookup :: "BlackboardState \<Rightarrow> MessageKind \<Rightarrow> BoardMessage option" where
  "lookup bb FeatureRequest = featureRequest bb"
| "lookup bb UiuxSpec = uiuxSpec bb"
| "lookup bb FrontendPlan = frontendPlan bb"
| "lookup bb BackendPlan = backendPlan bb"

section \<open>Process-wide state\<close>

text \<open>
  The number constants at the head of the file. \<open>POLL_INTERVAL_MS\<close> only paces the
  loop and is not modelled.
\<close>

definition MAX_GLOBAL_CYCLES :: nat where
  "MAX_GLOBAL_CYCLES = 20"

definition MAX_AGENT_ITERATIONS :: nat where
  "MAX_AGENT_ITERATIONS = 3"

text \<open>
  The mutable fields of an \<open>Agent\<close> object. The three agents are module-level constants,
  so their fields live as long as the process does, as does the counter \<open>nextId\<close>.
\<close>

record Agent =
  maxIterations :: nat
  iterations :: nat
  lastSummary :: "jsstring option"

record Process =
  nextId :: nat
  agentOf :: "AgentName \<Rightarrow> Agent"

text \<open>The state in which the module is loaded: \<open>let nextId = 1\<close> and the agent literals.\<close>

definition initialAgent :: Agent where
  "initialAgent = \<lparr>maxIterations = MAX_AGENT_ITERATIONS, iterations = 0, lastSummary = None\<rparr>"

definition initialProcess :: Process where
  "initialProcess = \<lparr>nextId = 1, agentOf = (\<lambda>_. initialAgent)\<rparr>"

text \<open>\<open>const agents: Agent[] = [uiuxAgent, frontendAgent, backendAgent]\<close>\<close>

definition agents :: "AgentName list" where
  "agents = [Uiux, Frontend, Backend]"

text \<open>The \<open>outputs\<close> entry of each capability manifest.\<close>

fun manifestOutputs :: "AgentName \<Rightarrow> MessageKind list" where
  "manifestOutputs Uiux = [UiuxSpec]"
| "manifestOutputs Frontend = [FrontendPlan]"
| "manifestOutputs Backend = [BackendPlan]"

text \<open>\<open>createMessage\<close>: the message takes \<open>nextId\<close>, which is then incremented.\<close>

definition createMessage ::
  "Author \<Rightarrow> MessageKind \<Rightarrow> jsstring \<Rightarrow> Process \<Rightarrow> BoardMessage \<times> Process" where
  "createMessage a k c p =
     (\<lparr>id = nextId p, author = a, kind = k, content = c\<rparr>, p\<lparr>nextId := nextId p + 1\<rparr>)"

section \<open>Triggers\<close>

text \<open>\<open>[...board].reverse().find((m) => m.kind === k)\<close>: the last message of a kind.\<close>

definition findLastOfKind :: "MessageKind \<Rightarrow> BoardMessage list \<Rightarrow> BoardMessage option" where
  "findLastOfKind k board = List.find (\<lambda>m. kind m = k) (rev board)"

text \<open>\<open>a ?? b\<close> on optional values.\<close>

definition orElse :: "'a option \<Rightarrow> 'a option \<Rightarrow> 'a option" where
  "orElse a b = (case a of Some x \<Rightarrow> Some x | None \<Rightarrow> b)"

text \<open>
  The three \<open>findTrigger\<close> methods. \<open>this\<close> is the agent object, passed as the first
  argument. \<open>mySpecs[mySpecs.length - 1]\<close> is read only where the list is not empty.
\<close>

definition uiuxAgent_findTrigger ::
  "Agent \<Rightarrow> BoardMessage list \<Rightarrow> BlackboardState \<Rightarrow> BoardMessage option" where
  "uiuxAgent_findTrigger this board blackboard =
     (case orElse (featureRequest blackboard) (findLastOfKind FeatureRequest board) of
        None \<Rightarrow> None
      | Some feature \<Rightarrow>
          (let mySpecs = filter (\<lambda>m. author m = ByAgent Uiux \<and> kind m = UiuxSpec) board
           in if length mySpecs = 0 then Some feature
              else if iterations this \<ge> maxIterations this then None
              else Some (last mySpecs)))"

definition frontendAgent_findTrigger ::
  "Agent \<Rightarrow> BoardMessage list \<Rightarrow> BlackboardState \<Rightarrow> BoardMessage option" where
  "frontendAgent_findTrigger this board blackboard =
     (case orElse (uiuxSpec blackboard) (findLastOfKind UiuxSpec board) of
        None \<Rightarrow> None
      | Some spec \<Rightarrow>
          (let myPlans = filter (\<lambda>m. author m = ByAgent Frontend \<and> kind m = FrontendPlan) board
           in if length myPlans = 0 then Some spec
              else if iterations this \<ge> maxIterations this then None
              else Some (last myPlans)))"

definition backendAgent_findTrigger ::
  "Agent \<Rightarrow> BoardMessage list \<Rightarrow> BlackboardState \<Rightarrow> BoardMessage option" where
  "backendAgent_findTrigger this board blackboard =
     (case orElse (uiuxSpec blackboard) (findLastOfKind UiuxSpec board) of
        None \<Rightarrow> None
      | Some spec \<Rightarrow>
          (let myPlans = filter (\<lambda>m. author m = ByAgent Backend \<and> kind m = BackendPlan) board
           in if length myPlans = 0 then Some spec
              else if iterations this \<ge> maxIterations this then None
              else Some (last myPlans)))"

fun findTrigger ::
  "AgentName \<Rightarrow> Agent \<Rightarrow> BoardMessage list \<Rightarrow> BlackboardState \<Rightarrow> BoardMessage option" where
  "findTrigger Uiux = uiuxAgent_findTrigger"
| "findTrigger Frontend = frontendAgent_findTrigger"
| "findTrigger Backend = backendAgent_findTrigger"

section \<open>Acting\<close>

text \<open>
  The text generation service is outside the program. A call hands it the prompts, which
  are built from the role's manifest, the trigger message and, for the two engineer
  agents, the feature request found on the board; it answers with a finite sequence of
  text fragments. The service may answer the same prompt differently each time, so the
  model gives it one more argument that differs from call to call: the value of
  \<open>nextId\<close> when the call is made. A \<open>generator\<close> answers every call; the calls
  that throw or never settle are added in the section on awaited calls below.
\<close>

record GenRequest =
  role :: AgentName
  feature :: "BoardMessage option"
  trigger :: BoardMessage

type_synonym generator = "nat \<Rightarrow> GenRequest \<Rightarrow> jsstring list"

text \<open>
  \<open>let spec = ''; for await (const delta of result.textStream) { spec += delta; }\<close>
\<close>

definition collect :: "jsstring list \<Rightarrow> jsstring" where
  "collect deltas = foldl (\<lambda>spec delta. spec @ delta) [] deltas"

definition setLastSummary :: "AgentName \<Rightarrow> jsstring \<Rightarrow> Process \<Rightarrow> Process" where
  "setLastSummary a summary p =
     p\<lparr>agentOf := (agentOf p)(a := (agentOf p a)\<lparr>lastSummary := Some summary\<rparr>)\<rparr>"

definition uiuxAgent_act ::
  "generator \<Rightarrow> BoardMessage \<Rightarrow> BoardMessage list \<Rightarrow> BlackboardState \<Rightarrow> Process
   \<Rightarrow> BoardMessage \<times> Process" where
  "uiuxAgent_act gen trg board blackboard p =
     (let spec = collect (gen (nextId p) \<lparr>role = Uiux, feature = None, trigger = trg\<rparr>);
          summary = summarizeContent spec defaultMaxLength;
          p1 = setLastSummary Uiux summary p
      in createMessage (ByAgent Uiux) UiuxSpec (js_trim spec) p1)"

definition frontendAgent_act ::
  "generator \<Rightarrow> BoardMessage \<Rightarrow> BoardMessage list \<Rightarrow> BlackboardState \<Rightarrow> Process
   \<Rightarrow> BoardMessage \<times> Process" where
  "frontendAgent_act gen trg board blackboard p =
     (let feat = orElse (featureRequest blackboard)
                   (List.find (\<lambda>m. kind m = FeatureRequest) board);
          plan = collect (gen (nextId p) \<lparr>role = Frontend, feature = feat, trigger = trg\<rparr>);
          summary = summarizeContent plan defaultMaxLength;
          p1 = setLastSummary Frontend summary p
      in createMessage (ByAgent Frontend) FrontendPlan (js_trim plan) p1)"

definition backendAgent_act ::
  "generator \<Rightarrow> BoardMessage \<Rightarrow> BoardMessage list \<Rightarrow> BlackboardState \<Rightarrow> Process
   \<Rightarrow> BoardMessage \<times> Process" where
  "backendAgent_act gen trg board blackboard p =
     (let feat = orElse (featureRequest blackboard)
                   (List.find (\<lambda>m. kind m = FeatureRequest) board);
          plan = collect (gen (nextId p) \<lparr>role = Backend, feature = feat, trigger = trg\<rparr>);
          summary = summarizeContent plan defaultMaxLength;
          p1 = setLastSummary Backend summary p
      in createMessage (ByAgent Backend) BackendPlan (js_trim plan) p1)"

fun act ::
  "generator \<Rightarrow> AgentName \<Rightarrow> BoardMessage \<Rightarrow> BoardMessage list \<Rightarrow> BlackboardState \<Rightarrow> Process
   \<Rightarrow> BoardMessage \<times> Process" where
  "act gen Uiux = uiuxAgent_act gen"
| "act gen Frontend = frontendAgent_act gen"
| "act gen Backend = backendAgent_act gen"

section \<open>The coordinator\<close>

text \<open>
  The state that one call of \<open>runMultiAgentPipeline\<close> works on: its local \<open>board\<close> and
  \<open>blackboard\<close>, and the process-wide state it shares with every other call.
\<close>

record RunState =
  board :: "BoardMessage list"
  blackboard :: BlackboardState
  proc :: Process

text \<open>
  The update of the blackboard after \<open>board.push(newMessage)\<close>:
  \<^verbatim>\<open>
  if (newMessage.kind === 'uiux-spec') {
    blackboard.uiuxSpec = newMessage;
  } else if (newMessage.kind === 'frontend-plan') {
    blackboard.frontendPlan = newMessage;
  } else if (newMessage.kind === 'backend-plan') {
    blackboard.backendPlan = newMessage;
  }
  \<close>
\<close>

definition updateBlackboard :: "BoardMessage \<Rightarrow> BlackboardState \<Rightarrow> BlackboardState" where
  "updateBlackboard newMessage bb =
     (if kind newMessage = UiuxSpec then bb\<lparr>uiuxSpec := Some newMessage\<rparr>
      else if kind newMessage = FrontendPlan then bb\<lparr>frontendPlan := Some newMessage\<rparr>
      else if kind newMessage = BackendPlan then bb\<lparr>backendPlan := Some newMessage\<rparr>
      else bb)"

definition incrementIterations :: "AgentName \<Rightarrow> Process \<Rightarrow> Process" where
  "incrementIterations a p =
     p\<lparr>agentOf := (agentOf p)(a := (agentOf p a)\<lparr>iterations := iterations (agentOf p a) + 1\<rparr>)\<rparr>"

text \<open>
  The body of \<open>for (const agent of agents)\<close>, on the state and the flag
  \<open>progressedThisCycle\<close>. The two \<open>continue\<close> statements leave both as they are.
\<close>

definition agentTurn :: "generator \<Rightarrow> AgentName \<Rightarrow> RunState \<times> bool \<Rightarrow> RunState \<times> bool" where
  "agentTurn gen a sp =
     (let s = fst sp in
      case findTrigger a (agentOf (proc s) a) (board s) (blackboard s) of
        None \<Rightarrow> sp
      | Some trg \<Rightarrow>
          if iterations (agentOf (proc s) a) \<ge> maxIterations (agentOf (proc s) a) then sp
          else
            (let p1 = incrementIterations a (proc s);
                 made = act gen a trg (board s) (blackboard s) p1;
                 newMessage = fst made
             in (\<lparr>board = board s @ [newMessage],
                  blackboard = updateBlackboard newMessage (blackboard s),
                  proc = snd made\<rparr>, True)))"

fun agentsLoop :: "generator \<Rightarrow> AgentName list \<Rightarrow> RunState \<times> bool \<Rightarrow> RunState \<times> bool" where
  "agentsLoop gen [] sp = sp"
| "agentsLoop gen (a # as) sp = agentsLoop gen as (agentTurn gen a sp)"

text \<open>The states of the inner loop, one after each agent's turn, in order.\<close>

fun agentsPoints :: "generator \<Rightarrow> AgentName list \<Rightarrow> RunState \<times> bool \<Rightarrow> RunState list" where
  "agentsPoints gen [] sp = []"
| "agentsPoints gen (a # as) sp =
     fst (agentTurn gen a sp) # agentsPoints gen as (agentTurn gen a sp)"

text \<open>
  How the outer loop ended: by \<open>break\<close> after three idle cycles, or by its condition
  \<open>cycle <= MAX_GLOBAL_CYCLES\<close> becoming false.
\<close>

datatype Outcome = IdleStopped | BudgetExhausted

text \<open>
  What the outer loop leaves behind: the final state, how it ended, and two records kept
  for the statements about it: \<open>cycleLog\<close> holds \<open>progressedThisCycle\<close> of every
  cycle that ran, and \<open>points\<close> the state after every agent's turn.
\<close>

record LoopResult =
  finalState :: RunState
  outcome :: Outcome
  cycleLog :: "bool list"
  points :: "RunState list"

text \<open>
  \<open>for (let cycle = 1; cycle <= MAX_GLOBAL_CYCLES; cycle++)\<close> with the counter
  \<open>idleCycles\<close>. The wait at the end of the body only takes time.
\<close>

function cyclesLoop :: "generator \<Rightarrow> nat \<Rightarrow> nat \<Rightarrow> RunState \<Rightarrow> LoopResult" where
  "cyclesLoop gen cycle idleCycles s =
     (if cycle \<le> MAX_GLOBAL_CYCLES then
        (let after = agentsLoop gen agents (s, False);
             pts = agentsPoints gen agents (s, False);
             progressedThisCycle = snd after
         in if \<not> progressedThisCycle then
              (if idleCycles + 1 \<ge> 3 then
                 \<lparr>finalState = fst after, outcome = IdleStopped,
                  cycleLog = [False], points = pts\<rparr>
               else
                 (let r = cyclesLoop gen (cycle + 1) (idleCycles + 1) (fst after)
                  in r\<lparr>cycleLog := False # cycleLog r, points := pts @ points r\<rparr>))
            else
              (let r = cyclesLoop gen (cycle + 1) 0 (fst after)
               in r\<lparr>cycleLog := True # cycleLog r, points := pts @ points r\<rparr>))
      else \<lparr>finalState = s, outcome = BudgetExhausted, cycleLog = [], points = []\<rparr>)"
  by pat_completeness auto
termination
  by (relation "measure (\<lambda>(gen, cycle, idleCycles, s). Suc MAX_GLOBAL_CYCLES - cycle)") auto

declare cyclesLoop.simps [simp del]

section \<open>The report\<close>

text \<open>
  One line of \<open>[agent summaries]\<close>: either \<open>- name: no output\<close>, or the line with the
  number of messages, the kind of the last one and the last summary.
  \<open>!agent.lastSummary\<close> holds for \<open>undefined\<close> and for the empty string.
\<close>

datatype ReportLine =
  NoOutput AgentName
| Summary AgentName nat MessageKind jsstring

definition reportLine :: "RunState \<Rightarrow> AgentName \<Rightarrow> ReportLine" where
  "reportLine s name =
     (let agentMessages = filter (\<lambda>m. author m = ByAgent name) (board s);
          its = length agentMessages
      in case lastSummary (agentOf (proc s) name) of
           None \<Rightarrow> NoOutput name
         | Some summary \<Rightarrow>
             if its = 0 \<or> summary = [] then NoOutput name
             else Summary name its (kind (last agentMessages)) summary)"

section \<open>A pipeline run\<close>

text \<open>The board and blackboard after the feature request is posted.\<close>

definition seed :: "jsstring \<Rightarrow> Process \<Rightarrow> RunState" where
  "seed initialRequest p =
     (let made = createMessage User FeatureRequest (js_trim initialRequest) p;
          featureMessage = fst made
      in \<lparr>board = [] @ [featureMessage],
          blackboard = emptyBlackboard\<lparr>featureRequest := Some featureMessage\<rparr>,
          proc = snd made\<rparr>)"

record RunResult =
  final :: RunState
  ending :: Outcome
  cycles :: "bool list"
  visited :: "RunState list"
  report :: "ReportLine list"

definition runMultiAgentPipeline :: "generator \<Rightarrow> jsstring \<Rightarrow> Process \<Rightarrow> RunResult" where
  "runMultiAgentPipeline gen initialRequest p =
     (let s0 = seed initialRequest p;
          r = cyclesLoop gen 1 0 s0
      in \<lparr>final = finalState r, ending = outcome r, cycles = cycleLog r,
          visited = s0 # points r,
          report = map (reportLine (finalState r)) [Uiux, Frontend, Backend]\<rparr>)"

section \<open>The main loop\<close>

text \<open>
  \<^verbatim>\<open>
  async function main() {
    while (true) {
      const input = `Build a weekly dashboard that tracks active users for our system.`;
      const trimmed = input.trim();
      if (!trimmed) { continue; }
      if (trimmed.toLowerCase() === 'exit') { break; }
      await runMultiAgentPipeline(trimmed);
    }
    terminal.close();
  }
  \<close>
  The prompt that read \<open>input\<close> from the terminal is commented out in the source, and
  the request is the same constant in every pass.
\<close>

definition hardcodedInput :: jsstring where
  "hardcodedInput =
     map of_char ''Build a weekly dashboard that tracks active users for our system.''"

text \<open>
  \<open>trimmed.toLowerCase() === 'exit'\<close>: the four letters, each in either case. No other
  code unit has one of them as its lower case.
\<close>

definition isExit :: "jsstring \<Rightarrow> bool" where
  "isExit s =
     (case s of
        [a, b, c, d] \<Rightarrow>
          (a = 0x65 \<or> a = 0x45) \<and> (b = 0x78 \<or> b = 0x58)
          \<and> (c = 0x69 \<or> c = 0x49) \<and> (d = 0x74 \<or> d = 0x54)
      | _ \<Rightarrow> False)"

text \<open>
  The loop has no exit for this input, so \<open>main\<close> does not return. \<open>mainLoop gen n p\<close>
  gives the results of the runs made in its first \<open>n\<close> passes, each run starting in
  the process state that the run before left.
\<close>

fun mainLoop :: "generator \<Rightarrow> nat \<Rightarrow> Process \<Rightarrow> RunResult list" where
  "mainLoop gen 0 p = []"
| "mainLoop gen (Suc n) p =
     (let trimmed = js_trim hardcodedInput
      in if trimmed = [] then mainLoop gen n p
         else if isExit trimmed then []
         else (let r = runMultiAgentPipeline gen trimmed p
               in r # mainLoop gen n (proc (final r))))"

section \<open>Awaited calls\<close>

text \<open>
  \<open>act\<close> is an async function: it awaits the stream of the service in
  \<open>for await (const delta of result.textStream)\<close>, and the coordinator awaits \<open>act\<close>.
  Nothing in the program catches an error of the stream or bounds the time it waits. A
  call therefore ends in one of three ways: the stream delivers its fragments and
  closes, the stream throws, or the stream never closes.
\<close>

datatype Reply = Answers "jsstring list" | Throws | NeverSettles

type_synonym service = "nat \<Rightarrow> GenRequest \<Rightarrow> Reply"

text \<open>The service that answers every call as a generator does, and the fragments a
  service delivers.\<close>

definition answers :: "generator \<Rightarrow> service" where
  "answers gen n q = Answers (gen n q)"


text \<open>How an awaited promise ends.\<close>

datatype 'a Awaited = Resolved 'a | Rejected | Unsettled

text \<open>
  The request of a call: the role, the trigger and, for the two engineer agents, the
  feature request that \<open>act\<close> looks up before it builds the prompts.
\<close>

definition prompt ::
  "AgentName \<Rightarrow> BoardMessage \<Rightarrow> BoardMessage list \<Rightarrow> BlackboardState \<Rightarrow> GenRequest" where
  "prompt a trg b bb =
     \<lparr>role = a,
      feature = (if a = Uiux then None
                 else orElse (featureRequest bb) (List.find (\<lambda>m. kind m = FeatureRequest) b)),
      trigger = trg\<rparr>"

text \<open>
  \<open>act\<close> with the three ways its call can end. When the stream throws or never closes,
  the loop over the stream is left or never left, and \<open>act\<close> reaches neither the
  assignment of \<open>lastSummary\<close> nor \<open>createMessage\<close>.
\<close>

definition await_act ::
  "service \<Rightarrow> AgentName \<Rightarrow> BoardMessage \<Rightarrow> BoardMessage list \<Rightarrow> BlackboardState \<Rightarrow> Process
   \<Rightarrow> (BoardMessage \<times> Process) Awaited" where
  "await_act svc a trg b bb p =
     (case svc (nextId p) (prompt a trg b bb) of
        Answers deltas \<Rightarrow> Resolved (act (\<lambda>n q. deltas) a trg b bb p)
      | Throws \<Rightarrow> Rejected
      | NeverSettles \<Rightarrow> Unsettled)"








section \<open>Notions used in the statements\<close>


text \<open>The code units that count as white space, listed.\<close>

definition whiteSpaceUnits :: "jschar set" where
  "whiteSpaceUnits =
     {0x09, 0x0A, 0x0B, 0x0C, 0x0D, 0x20, 0xA0, 0x1680, 0x2028, 0x2029, 0x202F, 0x205F,
      0x3000, 0xFEFF} \<union> {0x2000 .. 0x200A}"



text \<open>Ids grow along the board, and every id on it is below \<open>nextId\<close>.\<close>

definition idsIncrease :: "RunState \<Rightarrow> bool" where
  "idsIncrease s \<longleftrightarrow>
     sorted_wrt (\<lambda>x y. id x < id y) (board s) \<and> (\<forall>m \<in> set (board s). id m < nextId (proc s))"

text \<open>Every blackboard field holds what a reverse scan of the board finds.\<close>

definition indexConsistent :: "RunState \<Rightarrow> bool" where
  "indexConsistent s \<longleftrightarrow> (\<forall>k. lookup (blackboard s) k = findLastOfKind k (board s))"

text \<open>Every plan on the board has a UI/UX spec at an earlier position.\<close>

definition dependencyOrdered :: "BoardMessage list \<Rightarrow> bool" where
  "dependencyOrdered b \<longleftrightarrow>
     (\<forall>i < length b. kind (b ! i) = FrontendPlan \<or> kind (b ! i) = BackendPlan \<longrightarrow>
        (\<exists>j < i. kind (b ! j) = UiuxSpec))"

text \<open>
  Relative to the process state \<open>p0\<close> in which a run started: budgets are unchanged,
  every message an agent has on the board is matched by one increment of its counter,
  and a counter that has moved is within the budget.
\<close>

definition countsIterations :: "Process \<Rightarrow> RunState \<Rightarrow> bool" where
  "countsIterations p0 s \<longleftrightarrow>
     (\<forall>a. maxIterations (agentOf (proc s) a) = maxIterations (agentOf p0 a)
        \<and> length (filter (\<lambda>m. author m = ByAgent a) (board s)) + iterations (agentOf p0 a)
            = iterations (agentOf (proc s) a)
        \<and> (iterations (agentOf p0 a) < iterations (agentOf (proc s) a) \<longrightarrow>
             iterations (agentOf (proc s) a) \<le> maxIterations (agentOf p0 a)))"


section \<open>Sample inputs\<close>

text \<open>A request \<open>"Hi"\<close>, a service that always answers \<open>" AB\n"\<close> in two fragments, and
  one whose answers hold white space only.\<close>

definition sampleRequest :: jsstring where
  "sampleRequest = [0x48, 0x69]"

definition sampleGen :: generator where
  "sampleGen n r = [[0x20, 0x41], [0x42, 0x0A]]"


text \<open>A service whose stream throws, and one whose stream never closes.\<close>

definition throwingService :: service where
  "throwingService n q = Throws"


text \<open>A trigger for the sample calls: the request \<open>"Hi"\<close> as message 1.\<close>

definition sampleTrigger :: BoardMessage where
  "sampleTrigger = \<lparr>id = 1, author = User, kind = FeatureRequest, content = [0x48, 0x69]\<rparr>"

section \<open>Facts about strings and summaries\<close>

lemma collect_concat_aux: "foldl (\<lambda>spec delta. spec @ delta) acc deltas = acc @ concat deltas"
  by (induction deltas arbitrary: acc) simp_all

lemma collect_concat: "collect deltas = concat deltas"
  by (simp add: collect_def collect_concat_aux)


lemma js_slice0_take: "0 \<le> e \<Longrightarrow> e \<le> int (length s) \<Longrightarrow> js_slice0 s e = take (nat e) s"
  by (simp add: js_slice0_def Let_def)

lemma summarize_long:
  assumes "3 \<le> maxLength" "maxLength < int (length (js_trim (firstLine body)))"
  shows "summarizeContent body maxLength = take (nat (maxLength - 3)) (js_trim (firstLine body)) @ ellipsis"
    and "int (length (summarizeContent body maxLength)) = maxLength"
  using assms by (simp_all add: summarizeContent_def Let_def js_slice0_take ellipsis_def)

lemma summarize_short:
  assumes "int (length (js_trim (firstLine body))) \<le> maxLength"
  shows "summarizeContent body maxLength = js_trim (firstLine body)"
  using assms by (simp add: summarizeContent_def Let_def)

text \<open>
  Claim C8, read for every limit \<open>maxLength\<close>, fails below 3: there \<open>maxLength - 3\<close>
  is negative, \<open>slice\<close> counts it from the end of the string, and the summary of
  \<open>"abcd"\<close> under the limit 2 is \<open>"abc..."\<close>, six code units long.
\<close>

theorem summary_limit_below_three_counterexample:
  "2 < int (length (js_trim (firstLine [0x61, 0x62, 0x63, 0x64])))
   \<and> summarizeContent [0x61, 0x62, 0x63, 0x64] 2 = [0x61, 0x62, 0x63, 0x2E, 0x2E, 0x2E]
   \<and> summarizeContent [0x61, 0x62, 0x63, 0x64] 2
        \<noteq> take (nat (2 - 3)) (js_trim (firstLine [0x61, 0x62, 0x63, 0x64])) @ ellipsis
   \<and> int (length (summarizeContent [0x61, 0x62, 0x63, 0x64] 2)) \<noteq> 2"
  by (simp add: summarizeContent_def firstLine_def js_trim_def isWhiteSpace_def js_slice0_def
        ellipsis_def)

text \<open>
  Claim C8, amended: for every limit \<open>maxLength\<close> of at least 3 (the default 200 is
  one), when the trimmed first non-blank line of the content is longer than
  \<open>maxLength\<close>, the summary is its first \<open>maxLength - 3\<close> code units followed by
  \<open>"..."\<close> and is exactly \<open>maxLength\<close> code units long; when that line has at most
  \<open>maxLength\<close> code units, the summary is the line unchanged.
\<close>

theorem summary_truncation:
  assumes "3 \<le> maxLength"
  shows "(let trimmed = js_trim (firstLine body);
           summary = summarizeContent body maxLength
       in (maxLength < int (length trimmed) \<longrightarrow>
             summary = take (nat (maxLength - 3)) trimmed @ ellipsis
             \<and> int (length summary) = maxLength)
          \<and> (int (length trimmed) \<le> maxLength \<longrightarrow> summary = trimmed))
         \<and> 3 \<le> defaultMaxLength"
  using assms summarize_long[of maxLength body] summarize_short[of body maxLength]
  by (simp add: Let_def defaultMaxLength_def)

text \<open>
  The theorem at the limit 5 and the content \<open>" \n abcdef\t\ng"\<close>: the first line is
  blank, the second trims to \<open>"abcdef"\<close>, and the summary is \<open>"ab..."\<close>.
\<close>

theorem summary_truncation_witness:
  "(3::int) \<le> 5
   \<and> js_trim (firstLine [0x20, 0x0A, 0x20, 0x61, 0x62, 0x63, 0x64, 0x65, 0x66, 0x09, 0x0A, 0x67])
        = [0x61, 0x62, 0x63, 0x64, 0x65, 0x66]
   \<and> summarizeContent [0x20, 0x0A, 0x20, 0x61, 0x62, 0x63, 0x64, 0x65, 0x66, 0x09, 0x0A, 0x67] 5
        = [0x61, 0x62, 0x2E, 0x2E, 0x2E]
   \<and> int (length (summarizeContent
          [0x20, 0x0A, 0x20, 0x61, 0x62, 0x63, 0x64, 0x65, 0x66, 0x09, 0x0A, 0x67] 5)) = 5"
proof -
  have h: "(3::int) \<le> 5" by simp
  have t: "js_trim (firstLine [0x20, 0x0A, 0x20, 0x61, 0x62, 0x63, 0x64, 0x65, 0x66, 0x09, 0x0A, 0x67])
        = [0x61, 0x62, 0x63, 0x64, 0x65, 0x66]"
    by (simp add: firstLine_def js_trim_def isWhiteSpace_def)
  show ?thesis
    using summary_truncation[OF h,
        of "[0x20, 0x0A, 0x20, 0x61, 0x62, 0x63, 0x64, 0x65, 0x66, 0x09, 0x0A, 0x67]"] t
    by (simp add: Let_def ellipsis_def)
qed

lemma js_trim_Nil [simp]: "js_trim [] = []" by (simp add: js_trim_def)



section \<open>Acting and taking a turn\<close>

lemma act_message:
  "fst (act gen a trg b bb p) =
     \<lparr>id = nextId p, author = ByAgent a, kind = hd (manifestOutputs a),
      content = js_trim (concat (gen (nextId p)
         \<lparr>role = a,
          feature = (if a = Uiux then None
                     else orElse (featureRequest bb) (List.find (\<lambda>m. kind m = FeatureRequest) b)),
          trigger = trg\<rparr>))\<rparr>"
  by (cases a)
     (simp_all add: uiuxAgent_act_def frontendAgent_act_def backendAgent_act_def Let_def
        createMessage_def setLastSummary_def collect_concat)

lemma act_process:
  "snd (act gen a trg b bb p) =
     p\<lparr>nextId := nextId p + 1,
       agentOf := (agentOf p)(a := (agentOf p a)\<lparr>lastSummary :=
         Some (summarizeContent (concat (gen (nextId p)
         \<lparr>role = a,
          feature = (if a = Uiux then None
                     else orElse (featureRequest bb) (List.find (\<lambda>m. kind m = FeatureRequest) b)),
          trigger = trg\<rparr>)) defaultMaxLength)\<rparr>)\<rparr>"
  by (cases a)
     (simp_all add: uiuxAgent_act_def frontendAgent_act_def backendAgent_act_def Let_def
        createMessage_def setLastSummary_def collect_concat)

lemma isWhiteSpace_units: "isWhiteSpace c \<longleftrightarrow> c \<in> whiteSpaceUnits"
  by (auto simp: isWhiteSpace_def whiteSpaceUnits_def)

lemma js_trim_decompose:
  "\<exists>pre post. s = pre @ js_trim s @ post
     \<and> (\<forall>c \<in> set pre. isWhiteSpace c) \<and> (\<forall>c \<in> set post. isWhiteSpace c)
     \<and> (js_trim s = [] \<or> \<not> isWhiteSpace (hd (js_trim s)) \<and> \<not> isWhiteSpace (last (js_trim s)))"
proof -
  let ?pre = "takeWhile isWhiteSpace s"
  let ?t = "dropWhile isWhiteSpace s"
  let ?post = "rev (takeWhile isWhiteSpace (rev ?t))"
  have t: "js_trim s = rev (dropWhile isWhiteSpace (rev ?t))" by (simp add: js_trim_def)
  have "?t = rev (rev ?t)" by (simp only: rev_rev_ident)
  also have "\<dots> = rev (takeWhile isWhiteSpace (rev ?t) @ dropWhile isWhiteSpace (rev ?t))"
    by (simp only: takeWhile_dropWhile_id)
  also have "\<dots> = rev (dropWhile isWhiteSpace (rev ?t)) @ rev (takeWhile isWhiteSpace (rev ?t))"
    by (simp only: rev_append)
  finally have split: "?t = js_trim s @ ?post" unfolding t .
  have whole: "s = ?pre @ js_trim s @ ?post"
    using split takeWhile_dropWhile_id[of isWhiteSpace s] by metis
  have pre: "\<forall>c \<in> set ?pre. isWhiteSpace c" by (auto dest: set_takeWhileD)
  have post: "\<forall>c \<in> set ?post. isWhiteSpace c" by (auto dest: set_takeWhileD)
  have ends: "\<not> isWhiteSpace (hd (js_trim s)) \<and> \<not> isWhiteSpace (last (js_trim s))"
    if ne: "js_trim s \<noteq> []"
  proof -
    have d: "dropWhile isWhiteSpace (rev ?t) \<noteq> []" using ne t by simp
    have "last (js_trim s) = hd (dropWhile isWhiteSpace (rev ?t))"
      unfolding t using d by (simp add: last_rev)
    then have l: "\<not> isWhiteSpace (last (js_trim s))" using hd_dropWhile[OF d] by simp
    have tn: "?t \<noteq> []" using split ne by (metis append_is_Nil_conv)
    have "hd (js_trim s) = hd ?t" using split ne by (metis hd_append2)
    then have "\<not> isWhiteSpace (hd (js_trim s))" using hd_dropWhile[OF tn] by simp
    then show ?thesis using l by simp
  qed
  show ?thesis
    apply (rule exI[of _ ?pre], rule exI[of _ ?post])
    using whole pre post ends by blast
qed



text \<open>
  Claim C9, amended: an invocation of \<open>act\<close> whose call delivers its fragments and
  closes produces exactly one message, with the next unused id; its author is the acting
  agent, its kind is the one entry of \<open>outputs\<close> in the agent's manifest, and its
  content is the concatenation of the fragments, in order, with the white space at both
  ends removed: the concatenation is the content between two runs of white space, and the
  content neither starts nor ends with white space. An invocation whose call throws is
  rejected, and one whose call never settles does not return; neither produces a message.
\<close>

theorem act_message_shape:
  "(\<forall>deltas. svc (nextId p) (prompt a trg b bb) = Answers deltas \<longrightarrow>
      (\<exists>m p' pre post.
         await_act svc a trg b bb p = Resolved (m, p')
         \<and> id m = nextId p \<and> nextId p' = nextId p + 1
         \<and> author m = ByAgent a \<and> manifestOutputs a = [kind m]
         \<and> concat deltas = pre @ content m @ post
         \<and> set pre \<subseteq> whiteSpaceUnits \<and> set post \<subseteq> whiteSpaceUnits
         \<and> (content m = [] \<or> hd (content m) \<notin> whiteSpaceUnits \<and> last (content m) \<notin> whiteSpaceUnits)))
   \<and> (svc (nextId p) (prompt a trg b bb) = Throws \<longrightarrow> await_act svc a trg b bb p = Rejected)
   \<and> (svc (nextId p) (prompt a trg b bb) = NeverSettles \<longrightarrow> await_act svc a trg b bb p = Unsettled)"
proof (intro conjI allI impI)
  fix deltas
  assume ans: "svc (nextId p) (prompt a trg b bb) = Answers deltas"
  let ?made = "act (\<lambda>n q. deltas) a trg b bb p"
  have r: "await_act svc a trg b bb p = Resolved (fst ?made, snd ?made)"
    using ans by (simp add: await_act_def)
  have c: "content (fst ?made) = js_trim (concat deltas)" unfolding act_message by simp
  obtain pre post where d: "concat deltas = pre @ js_trim (concat deltas) @ post"
      "\<forall>c \<in> set pre. isWhiteSpace c" "\<forall>c \<in> set post. isWhiteSpace c"
      "js_trim (concat deltas) = [] \<or> \<not> isWhiteSpace (hd (js_trim (concat deltas)))
         \<and> \<not> isWhiteSpace (last (js_trim (concat deltas)))"
    using js_trim_decompose[of "concat deltas"] by blast
  have i: "id (fst ?made) = nextId p" "author (fst ?made) = ByAgent a"
    unfolding act_message by simp_all
  have k: "manifestOutputs a = [kind (fst ?made)]" unfolding act_message by (cases a) simp_all
  have n: "nextId (snd ?made) = nextId p + 1" unfolding act_process by simp
  show "\<exists>m p' pre post.
         await_act svc a trg b bb p = Resolved (m, p')
         \<and> id m = nextId p \<and> nextId p' = nextId p + 1
         \<and> author m = ByAgent a \<and> manifestOutputs a = [kind m]
         \<and> concat deltas = pre @ content m @ post
         \<and> set pre \<subseteq> whiteSpaceUnits \<and> set post \<subseteq> whiteSpaceUnits
         \<and> (content m = [] \<or> hd (content m) \<notin> whiteSpaceUnits \<and> last (content m) \<notin> whiteSpaceUnits)"
    apply (rule exI[of _ "fst ?made"], rule exI[of _ "snd ?made"])
    apply (rule exI[of _ pre], rule exI[of _ post])
    using r i k n d unfolding c isWhiteSpace_units by auto
next
  assume "svc (nextId p) (prompt a trg b bb) = Throws"
  then show "await_act svc a trg b bb p = Rejected" by (simp add: await_act_def)
next
  assume "svc (nextId p) (prompt a trg b bb) = NeverSettles"
  then show "await_act svc a trg b bb p = Unsettled" by (simp add: await_act_def)
qed

text \<open>
  Claim C9 fails on the code for a call that throws: the UI/UX agent, triggered by the
  request, awaits a stream that throws, and its \<open>act\<close> is rejected without a message.
\<close>

theorem act_rejected_counterexample:
  "await_act throwingService Uiux sampleTrigger [sampleTrigger]
     (emptyBlackboard\<lparr>featureRequest := Some sampleTrigger\<rparr>)
     (incrementIterations Uiux (initialProcess\<lparr>nextId := 2\<rparr>)) = Rejected"
  by (simp add: await_act_def throwingService_def)

text \<open>
  The sample service answers the UI/UX agent's call with \<open>" A"\<close> and \<open>"B\n"\<close>; the
  message made from it is message 2, a spec by the UI/UX agent with the content \<open>"AB"\<close>.
\<close>

theorem act_message_shape_witness:
  "answers sampleGen (nextId (initialProcess\<lparr>nextId := 2\<rparr>))
       (prompt Uiux sampleTrigger [sampleTrigger] (emptyBlackboard\<lparr>featureRequest := Some sampleTrigger\<rparr>))
     = Answers [[0x20, 0x41], [0x42, 0x0A]]
   \<and> (\<exists>p'. await_act (answers sampleGen) Uiux sampleTrigger [sampleTrigger]
            (emptyBlackboard\<lparr>featureRequest := Some sampleTrigger\<rparr>) (initialProcess\<lparr>nextId := 2\<rparr>)
          = Resolved (\<lparr>id = 2, author = ByAgent Uiux, kind = UiuxSpec, content = [0x41, 0x42]\<rparr>, p')
        \<and> nextId p' = 3)"
proof -
  let ?p = "initialProcess\<lparr>nextId := 2\<rparr>"
  let ?bb = "emptyBlackboard\<lparr>featureRequest := Some sampleTrigger\<rparr>"
  have a: "answers sampleGen (nextId ?p) (prompt Uiux sampleTrigger [sampleTrigger] ?bb)
             = Answers [[0x20, 0x41], [0x42, 0x0A]]"
    by (simp add: answers_def sampleGen_def)
  from act_message_shape[of "answers sampleGen" ?p Uiux sampleTrigger "[sampleTrigger]" ?bb] a
  obtain m p' where m: "await_act (answers sampleGen) Uiux sampleTrigger [sampleTrigger] ?bb ?p
        = Resolved (m, p')" "id m = nextId ?p" "nextId p' = nextId ?p + 1" "author m = ByAgent Uiux"
      "manifestOutputs Uiux = [kind m]"
    by blast
  have "await_act (answers sampleGen) Uiux sampleTrigger [sampleTrigger] ?bb ?p
        = Resolved (act (\<lambda>n q. [[0x20, 0x41], [0x42, 0x0A]]) Uiux sampleTrigger [sampleTrigger] ?bb ?p)"
    using a by (simp add: await_act_def)
  then have "(m, p') = act (\<lambda>n q. [[0x20, 0x41], [0x42, 0x0A]]) Uiux sampleTrigger [sampleTrigger] ?bb ?p"
    using m(1) by (simp del: act.simps)
  then have "m = fst (act (\<lambda>n q. [[0x20, 0x41], [0x42, 0x0A]]) Uiux sampleTrigger [sampleTrigger] ?bb ?p)"
    by (metis fst_conv)
  then have "content m = [0x41, 0x42]"
    unfolding act_message by (simp add: js_trim_def isWhiteSpace_def)
  then have "m = \<lparr>id = 2, author = ByAgent Uiux, kind = UiuxSpec, content = [0x41, 0x42]\<rparr>"
    using m(2,4,5) by (cases m) simp
  then show ?thesis using a m(1,3) by auto
qed

lemma agentTurn_skip:
  "findTrigger a (agentOf (proc (fst sp)) a) (board (fst sp)) (blackboard (fst sp)) = None
   \<or> maxIterations (agentOf (proc (fst sp)) a) \<le> iterations (agentOf (proc (fst sp)) a)
   \<Longrightarrow> agentTurn gen a sp = sp"
  by (auto simp: agentTurn_def Let_def split: option.splits)

lemma agentTurn_acts:
  assumes "findTrigger a (agentOf (proc (fst sp)) a) (board (fst sp)) (blackboard (fst sp)) = Some trg"
    and "iterations (agentOf (proc (fst sp)) a) < maxIterations (agentOf (proc (fst sp)) a)"
  shows "agentTurn gen a sp =
     (\<lparr>board = board (fst sp) @
          [fst (act gen a trg (board (fst sp)) (blackboard (fst sp)) (incrementIterations a (proc (fst sp))))],
       blackboard = updateBlackboard
          (fst (act gen a trg (board (fst sp)) (blackboard (fst sp)) (incrementIterations a (proc (fst sp)))))
          (blackboard (fst sp)),
       proc = snd (act gen a trg (board (fst sp)) (blackboard (fst sp)) (incrementIterations a (proc (fst sp))))\<rparr>,
      True)"
  using assms by (simp add: agentTurn_def Let_def del: act.simps findTrigger.simps)

lemma agentTurn_cases:
  obtains (skip) "agentTurn gen a sp = sp"
  | (acts) trg m p' where
      "findTrigger a (agentOf (proc (fst sp)) a) (board (fst sp)) (blackboard (fst sp)) = Some trg"
      "iterations (agentOf (proc (fst sp)) a) < maxIterations (agentOf (proc (fst sp)) a)"
      "agentTurn gen a sp =
         (\<lparr>board = board (fst sp) @ [m], blackboard = updateBlackboard m (blackboard (fst sp)),
           proc = p'\<rparr>, True)"
      "m = fst (act gen a trg (board (fst sp)) (blackboard (fst sp)) (incrementIterations a (proc (fst sp))))"
      "id m = nextId (proc (fst sp))" "author m = ByAgent a" "manifestOutputs a = [kind m]"
      "nextId p' = nextId (proc (fst sp)) + 1"
      "\<And>b. b \<noteq> a \<Longrightarrow> agentOf p' b = agentOf (proc (fst sp)) b"
      "maxIterations (agentOf p' a) = maxIterations (agentOf (proc (fst sp)) a)"
      "iterations (agentOf p' a) = iterations (agentOf (proc (fst sp)) a) + 1"
proof (cases "findTrigger a (agentOf (proc (fst sp)) a) (board (fst sp)) (blackboard (fst sp))")
  case None
  then show ?thesis using agentTurn_skip[of a sp gen] skip by simp
next
  case (Some trg)
  show ?thesis
  proof (cases "iterations (agentOf (proc (fst sp)) a) < maxIterations (agentOf (proc (fst sp)) a)")
    case False
    then show ?thesis using agentTurn_skip[of a sp gen] skip by simp
  next
    case True
    let ?p1 = "incrementIterations a (proc (fst sp))"
    let ?made = "act gen a trg (board (fst sp)) (blackboard (fst sp)) ?p1"
    have n: "nextId ?p1 = nextId (proc (fst sp))" by (simp add: incrementIterations_def)
    show ?thesis
    proof (rule acts[of trg "fst ?made" "snd ?made"])
      show "findTrigger a (agentOf (proc (fst sp)) a) (board (fst sp)) (blackboard (fst sp)) = Some trg"
        by (rule Some)
      show "iterations (agentOf (proc (fst sp)) a) < maxIterations (agentOf (proc (fst sp)) a)"
        by (rule True)
      show "agentTurn gen a sp =
         (\<lparr>board = board (fst sp) @ [fst ?made],
           blackboard = updateBlackboard (fst ?made) (blackboard (fst sp)),
           proc = snd ?made\<rparr>, True)"
        by (rule agentTurn_acts[OF Some True])
      show "fst ?made = fst ?made" by (rule refl)
      show "id (fst ?made) = nextId (proc (fst sp))" unfolding act_message by (simp add: n)
      show "author (fst ?made) = ByAgent a" unfolding act_message by simp
      show "manifestOutputs a = [kind (fst ?made)]" unfolding act_message by (cases a) simp_all
      show "nextId (snd ?made) = nextId (proc (fst sp)) + 1" unfolding act_process by (simp add: n)
      show "\<And>b. b \<noteq> a \<Longrightarrow> agentOf (snd ?made) b = agentOf (proc (fst sp)) b"
        unfolding act_process by (simp add: incrementIterations_def)
      show "maxIterations (agentOf (snd ?made) a) = maxIterations (agentOf (proc (fst sp)) a)"
        unfolding act_process by (simp add: incrementIterations_def)
      show "iterations (agentOf (snd ?made) a) = iterations (agentOf (proc (fst sp)) a) + 1"
        unfolding act_process by (simp add: incrementIterations_def)
    qed
  qed
qed

section \<open>Properties kept by every turn\<close>

lemma agentsLoop_preserves:
  assumes step: "\<And>a sp. P (fst sp) \<Longrightarrow> P (fst (agentTurn gen a sp))"
    and "P (fst sp)"
  shows "P (fst (agentsLoop gen as sp))"
  using assms(2)
proof (induction as arbitrary: sp)
  case Nil
  then show ?case by simp
next
  case (Cons a as)
  have "P (fst (agentTurn gen a sp))" using step Cons.prems by blast
  then show ?case using Cons.IH by simp
qed

lemma agentsPoints_preserves:
  assumes step: "\<And>a sp. P (fst sp) \<Longrightarrow> P (fst (agentTurn gen a sp))"
    and "P (fst sp)" and "x \<in> set (agentsPoints gen as sp)"
  shows "P x"
  using assms(2,3)
proof (induction as arbitrary: sp)
  case Nil
  then show ?case by simp
next
  case (Cons a as)
  have t: "P (fst (agentTurn gen a sp))" using step Cons.prems(1) by blast
  from Cons.prems(2) have "x = fst (agentTurn gen a sp) \<or> x \<in> set (agentsPoints gen as (agentTurn gen a sp))"
    by simp
  then show ?case using t Cons.IH[OF t] by blast
qed

lemma cyclesLoop_preserves:
  "(\<And>a sp. P (fst sp) \<Longrightarrow> P (fst (agentTurn gen a sp))) \<Longrightarrow> P s \<Longrightarrow>
     P (finalState (cyclesLoop gen c i s)) \<and> (\<forall>x \<in> set (points (cyclesLoop gen c i s)). P x)"
proof (induction gen c i s rule: cyclesLoop.induct)
  case (1 gen cycle idleCycles s)
  note step = "1.prems"(1)
  have A: "P (fst (agentsLoop gen agents (s, False)))"
    by (rule agentsLoop_preserves[of P gen]) (simp_all add: step "1.prems"(2))
  have B: "\<And>x. x \<in> set (agentsPoints gen agents (s, False)) \<Longrightarrow> P x"
    by (rule agentsPoints_preserves[of P gen "(s, False)" _ agents]) (simp_all add: step "1.prems"(2))
  show ?case
  proof (cases "cycle \<le> MAX_GLOBAL_CYCLES")
    case False
    then show ?thesis using "1.prems"(2) by (simp add: cyclesLoop.simps[of gen cycle idleCycles s])
  next
    case True
    note c = True
    show ?thesis
    proof (cases "snd (agentsLoop gen agents (s, False))")
      case True
      then show ?thesis
        using c "1.IH"(2)[OF c refl refl refl _ step A] A B
        by (subst (1 2) cyclesLoop.simps) (auto simp: Let_def)
    next
      case False
      note np = False
      show ?thesis
      proof (cases "idleCycles + 1 \<ge> 3")
        case True
        then show ?thesis using c np A B
          by (subst (1 2) cyclesLoop.simps) (auto simp: Let_def)
      next
        case False
        then show ?thesis
          using c np "1.IH"(1)[OF c refl refl refl _ _ step A] A B
          by (subst (1 2) cyclesLoop.simps) (auto simp: Let_def)
      qed
    qed
  qed
qed

lemma findLastOfKind_snoc:
  "findLastOfKind k (b @ [m]) = (if kind m = k then Some m else findLastOfKind k b)"
  by (simp add: findLastOfKind_def)

lemma lookup_updateBlackboard:
  "lookup (updateBlackboard m bb) k =
     (if k = kind m \<and> k \<noteq> FeatureRequest then Some m else lookup bb k)"
  by (cases k; cases "kind m") (simp_all add: updateBlackboard_def)

lemma output_not_FeatureRequest: "manifestOutputs a = [k] \<Longrightarrow> k \<noteq> FeatureRequest"
  by (cases a) auto

lemma idsIncrease_seed: "idsIncrease (seed req p)"
  by (simp add: idsIncrease_def seed_def createMessage_def Let_def)

lemma indexConsistent_seed: "indexConsistent (seed req p)"
proof -
  have "lookup (blackboard (seed req p)) k = findLastOfKind k (board (seed req p))" for k
    by (cases k) (simp_all add: seed_def createMessage_def Let_def emptyBlackboard_def findLastOfKind_def)
  then show ?thesis by (simp add: indexConsistent_def)
qed

lemma dependencyOrdered_seed: "dependencyOrdered (board (seed req p))"
  by (simp add: dependencyOrdered_def seed_def createMessage_def Let_def)

lemma countsIterations_seed: "countsIterations p (seed req p)"
  by (simp add: countsIterations_def seed_def createMessage_def Let_def)

lemma idsIncrease_turn:
  assumes "idsIncrease (fst sp)"
  shows "idsIncrease (fst (agentTurn gen a sp))"
proof (cases rule: agentTurn_cases[of gen a sp])
  case skip
  then show ?thesis using assms by simp
next
  case (acts trg m p')
  show ?thesis using assms acts(3,5,8)
    by (auto simp: idsIncrease_def sorted_wrt_append)
qed

lemma indexConsistent_turn:
  assumes "indexConsistent (fst sp)"
  shows "indexConsistent (fst (agentTurn gen a sp))"
proof (cases rule: agentTurn_cases[of gen a sp])
  case skip
  then show ?thesis using assms by simp
next
  case (acts trg m p')
  have "kind m \<noteq> FeatureRequest" using acts(7) output_not_FeatureRequest by blast
  then show ?thesis using assms acts(3)
    by (auto simp: indexConsistent_def findLastOfKind_snoc lookup_updateBlackboard)
qed

lemma find_SomeD: "List.find P xs = Some x \<Longrightarrow> P x \<and> x \<in> set xs"
  by (induction xs) (auto split: if_splits)

lemma findLastOfKind_Some_nth:
  assumes "findLastOfKind k b \<noteq> None"
  shows "\<exists>j < length b. kind (b ! j) = k"
proof -
  from assms obtain m where "List.find (\<lambda>m. kind m = k) (rev b) = Some m"
    by (auto simp: findLastOfKind_def)
  then have "m \<in> set b" "kind m = k"
    using find_SomeD[of "\<lambda>m. kind m = k" "rev b" m] by simp_all
  then show ?thesis by (auto simp: in_set_conv_nth)
qed

lemma consumer_trigger_needs_spec:
  assumes "a = Frontend \<or> a = Backend" "findTrigger a ag b bb = Some trg"
  shows "orElse (uiuxSpec bb) (findLastOfKind UiuxSpec b) \<noteq> None"
proof (cases "orElse (uiuxSpec bb) (findLastOfKind UiuxSpec b)")
  case None
  then have "findTrigger a ag b bb = None"
    using assms(1) by (auto simp: frontendAgent_findTrigger_def backendAgent_findTrigger_def)
  then show ?thesis using assms(2) by simp
next
  case (Some x)
  then show ?thesis by simp
qed

lemma dependencyOrdered_turn:
  assumes "indexConsistent (fst sp)" "dependencyOrdered (board (fst sp))"
  shows "dependencyOrdered (board (fst (agentTurn gen a sp)))"
proof (cases rule: agentTurn_cases[of gen a sp])
  case skip
  then show ?thesis using assms by simp
next
  case (acts trg m p')
  let ?b = "board (fst sp)"
  have new: "\<exists>j < length ?b. kind (?b ! j) = UiuxSpec"
    if c: "kind m = FrontendPlan \<or> kind m = BackendPlan"
  proof -
    have "a = Frontend \<or> a = Backend" using acts(7) c by (cases a) auto
    then have "orElse (uiuxSpec (blackboard (fst sp))) (findLastOfKind UiuxSpec ?b) \<noteq> None"
      using consumer_trigger_needs_spec acts(1) by blast
    moreover have "uiuxSpec (blackboard (fst sp)) = findLastOfKind UiuxSpec ?b"
      using assms(1)[unfolded indexConsistent_def, rule_format, of UiuxSpec] by simp
    ultimately have "findLastOfKind UiuxSpec ?b \<noteq> None"
      by (auto simp: orElse_def split: option.splits)
    then show ?thesis by (rule findLastOfKind_Some_nth)
  qed
  have "\<exists>j < i. kind ((?b @ [m]) ! j) = UiuxSpec"
    if i: "i < length (?b @ [m])"
      and k: "kind ((?b @ [m]) ! i) = FrontendPlan \<or> kind ((?b @ [m]) ! i) = BackendPlan" for i
  proof (cases "i < length ?b")
    case True
    then have "kind (?b ! i) = FrontendPlan \<or> kind (?b ! i) = BackendPlan"
      using k by (simp add: nth_append)
    then obtain j where j: "j < i" "kind (?b ! j) = UiuxSpec"
      using assms(2) True unfolding dependencyOrdered_def by blast
    then have "kind ((?b @ [m]) ! j) = UiuxSpec" using True by (simp add: nth_append)
    then show ?thesis using j(1) by blast
  next
    case False
    then have e: "i = length ?b" using i by simp
    then have "kind m = FrontendPlan \<or> kind m = BackendPlan" using k by simp
    from new[OF this] obtain j where j: "j < length ?b" "kind (?b ! j) = UiuxSpec" by blast
    then have "kind ((?b @ [m]) ! j) = UiuxSpec" by (simp add: nth_append)
    then show ?thesis using j(1) e by blast
  qed
  then show ?thesis using acts(3) by (simp add: dependencyOrdered_def)
qed

lemma countsIterations_turn:
  assumes "countsIterations p0 (fst sp)"
  shows "countsIterations p0 (fst (agentTurn gen a sp))"
proof (cases rule: agentTurn_cases[of gen a sp])
  case skip
  then show ?thesis using assms by simp
next
  case (acts trg m p')
  have "maxIterations (agentOf p' b) = maxIterations (agentOf p0 b)
        \<and> length (filter (\<lambda>m. author m = ByAgent b) (board (fst sp) @ [m])) + iterations (agentOf p0 b)
            = iterations (agentOf p' b)
        \<and> (iterations (agentOf p0 b) < iterations (agentOf p' b) \<longrightarrow>
             iterations (agentOf p' b) \<le> maxIterations (agentOf p0 b))" for b
  proof (cases "b = a")
    case True
    then show ?thesis
      using assms[unfolded countsIterations_def, rule_format, of a] acts(2,6,10,11) by simp
  next
    case False
    then show ?thesis
      using assms[unfolded countsIterations_def, rule_format, of b] acts(6) acts(9)[of b] by simp
  qed
  then show ?thesis using acts(3) by (simp add: countsIterations_def)
qed

lemma run_invariant:
  assumes step: "\<And>a sp. P (fst sp) \<Longrightarrow> P (fst (agentTurn gen a sp))"
    and init: "P (seed req p)"
  shows "P (final (runMultiAgentPipeline gen req p))"
    and "\<forall>s \<in> set (visited (runMultiAgentPipeline gen req p)). P s"
  using cyclesLoop_preserves[of P gen "seed req p" 1 0, OF step init] init
  by (simp_all add: runMultiAgentPipeline_def Let_def)

lemma findLastOfKind_None: "findLastOfKind k b = None \<Longrightarrow> \<forall>m \<in> set b. kind m \<noteq> k"
  by (simp add: findLastOfKind_def find_None_iff)

lemma findLastOfKind_highest:
  assumes "sorted_wrt (\<lambda>x y. id x < id y) b" "findLastOfKind k b = Some c"
  shows "c \<in> set b \<and> kind c = k \<and> (\<forall>m \<in> set b. kind m = k \<longrightarrow> id m < id c \<or> m = c)"
  using assms
proof (induction b rule: rev_induct)
  case Nil
  then show ?case by (simp add: findLastOfKind_def)
next
  case (snoc x b)
  show ?case
  proof (cases "kind x = k")
    case True
    then have "c = x" using snoc.prems(2) by (simp add: findLastOfKind_snoc)
    then show ?thesis using True snoc.prems(1) by (auto simp: sorted_wrt_append)
  next
    case False
    then have "findLastOfKind k b = Some c" using snoc.prems(2) by (simp add: findLastOfKind_snoc)
    moreover have "sorted_wrt (\<lambda>x y. id x < id y) b" using snoc.prems(1) by (simp add: sorted_wrt_append)
    ultimately show ?thesis using snoc.IH False by auto
  qed
qed

lemma ids_index_turn:
  "idsIncrease (fst sp) \<and> indexConsistent (fst sp) \<Longrightarrow>
   idsIncrease (fst (agentTurn gen a sp)) \<and> indexConsistent (fst (agentTurn gen a sp))"
  by (simp add: idsIncrease_turn indexConsistent_turn)

lemma ids_index_visited:
  "\<forall>s \<in> set (visited (runMultiAgentPipeline gen req p)). idsIncrease s \<and> indexConsistent s"
  by (rule run_invariant(2)[of "\<lambda>s. idsIncrease s \<and> indexConsistent s" gen req p])
     (simp_all add: ids_index_turn idsIncrease_seed indexConsistent_seed)

text \<open>
  Claim C2: at every point of a run (after the seed, and after every agent's turn with
  its append and blackboard update) and for every kind of message, the blackboard field
  of that kind is empty exactly when the board has no message of the kind, and otherwise
  holds a message of the board of that kind whose id is above the id of every other
  message of the kind.
\<close>

theorem blackboard_holds_latest_of_each_kind:
  "\<forall>s \<in> set (visited (runMultiAgentPipeline gen req p)). \<forall>k.
     (case lookup (blackboard s) k of
        None \<Rightarrow> \<forall>m \<in> set (board s). kind m \<noteq> k
      | Some c \<Rightarrow> c \<in> set (board s) \<and> kind c = k
                 \<and> (\<forall>m \<in> set (board s). kind m = k \<longrightarrow> id m < id c \<or> m = c))"
proof (intro ballI allI)
  fix s k
  assume "s \<in> set (visited (runMultiAgentPipeline gen req p))"
  then have i: "idsIncrease s" and c: "indexConsistent s" using ids_index_visited by blast+
  from c have e: "lookup (blackboard s) k = findLastOfKind k (board s)"
    by (simp add: indexConsistent_def)
  show "case lookup (blackboard s) k of
        None \<Rightarrow> \<forall>m \<in> set (board s). kind m \<noteq> k
      | Some c \<Rightarrow> c \<in> set (board s) \<and> kind c = k
                 \<and> (\<forall>m \<in> set (board s). kind m = k \<longrightarrow> id m < id c \<or> m = c)"
  proof (cases "findLastOfKind k (board s)")
    case None
    then show ?thesis using e findLastOfKind_None[OF None] by simp
  next
    case (Some c)
    have "sorted_wrt (\<lambda>x y. id x < id y) (board s)" using i by (simp add: idsIncrease_def)
    from findLastOfKind_highest[OF this Some] show ?thesis using e Some by simp
  qed
qed

lemma deps_turn:
  "indexConsistent (fst sp) \<and> dependencyOrdered (board (fst sp)) \<Longrightarrow>
   indexConsistent (fst (agentTurn gen a sp)) \<and> dependencyOrdered (board (fst (agentTurn gen a sp)))"
  by (simp add: dependencyOrdered_turn indexConsistent_turn)

text \<open>
  Claim C7: at every point of a run, every frontend plan and every backend plan on the
  board has a UI/UX spec at a smaller position.
\<close>

theorem plans_follow_spec:
  "\<forall>s \<in> set (visited (runMultiAgentPipeline gen req p)). \<forall>i < length (board s).
     kind (board s ! i) = FrontendPlan \<or> kind (board s ! i) = BackendPlan \<longrightarrow>
       (\<exists>j < i. kind (board s ! j) = UiuxSpec)"
proof -
  have "\<forall>s \<in> set (visited (runMultiAgentPipeline gen req p)).
          indexConsistent s \<and> dependencyOrdered (board s)"
    by (rule run_invariant(2)[of "\<lambda>s. indexConsistent s \<and> dependencyOrdered (board s)" gen req p])
       (simp_all add: deps_turn dependencyOrdered_seed indexConsistent_seed)
  then show ?thesis unfolding dependencyOrdered_def by blast
qed

lemma countsIterations_visited:
  "\<forall>s \<in> set (visited (runMultiAgentPipeline gen req p)). countsIterations p s"
  by (rule run_invariant(2)[of "countsIterations p" gen req p])
     (simp_all add: countsIterations_turn countsIterations_seed)

lemma countsIterations_bound:
  assumes "countsIterations p s"
  shows "length (filter (\<lambda>m. author m = ByAgent a) (board s)) \<le> maxIterations (agentOf p a)"
  using assms[unfolded countsIterations_def, rule_format, of a] by linarith

section \<open>The cycle loop\<close>




lemma cyclesLoop_points_first:
  "cycle \<le> MAX_GLOBAL_CYCLES \<Longrightarrow>
   \<exists>rest. points (cyclesLoop gen cycle idleCycles s) = agentsPoints gen agents (s, False) @ rest"
  by (subst cyclesLoop.simps) (simp add: Let_def)

lemma agentTurn_acts_obtain:
  assumes t: "findTrigger a (agentOf (proc s) a) (board s) (blackboard s) = Some trg"
    and l: "iterations (agentOf (proc s) a) < maxIterations (agentOf (proc s) a)"
  obtains m p' where
    "agentTurn gen a (s, fl) =
       (\<lparr>board = board s @ [m], blackboard = updateBlackboard m (blackboard s), proc = p'\<rparr>, True)"
    "author m = ByAgent a" "manifestOutputs a = [kind m]"
    "\<And>b. b \<noteq> a \<Longrightarrow> agentOf p' b = agentOf (proc s) b"
    "maxIterations (agentOf p' a) = maxIterations (agentOf (proc s) a)"
    "iterations (agentOf p' a) = iterations (agentOf (proc s) a) + 1"
proof -
  let ?made = "act gen a trg (board s) (blackboard s) (incrementIterations a (proc s))"
  show ?thesis
  proof (rule that[of "fst ?made" "snd ?made"])
    show "agentTurn gen a (s, fl) =
       (\<lparr>board = board s @ [fst ?made], blackboard = updateBlackboard (fst ?made) (blackboard s),
         proc = snd ?made\<rparr>, True)"
      using agentTurn_acts[of a "(s, fl)" trg gen] t l by simp
    show "author (fst ?made) = ByAgent a" unfolding act_message by simp
    show "manifestOutputs a = [kind (fst ?made)]" unfolding act_message by (cases a) simp_all
    show "\<And>b. b \<noteq> a \<Longrightarrow> agentOf (snd ?made) b = agentOf (proc s) b"
      unfolding act_process by (simp add: incrementIterations_def)
    show "maxIterations (agentOf (snd ?made) a) = maxIterations (agentOf (proc s) a)"
      unfolding act_process by (simp add: incrementIterations_def)
    show "iterations (agentOf (snd ?made) a) = iterations (agentOf (proc s) a) + 1"
      unfolding act_process by (simp add: incrementIterations_def)
  qed
qed

text \<open>
  Claim C1: in a process where no agent has acted yet and every budget is at least 1,
  the seed puts one feature request on the board; in the first cycle the UI/UX agent is
  triggered by that request and appends a spec, the frontend agent and then the backend
  agent are each triggered by that spec and append their plans, and the board after the
  cycle holds exactly these four messages. The four states are the first four points of
  the run.
\<close>

theorem first_cycle_cascade:
  assumes fresh: "\<forall>a. iterations (agentOf p a) = 0"
    and budget: "\<forall>a. 1 \<le> maxIterations (agentOf p a)"
  shows "\<exists>m1 m2 m3 m4 s1 s2 s3.
      board (seed req p) = [m1] \<and> author m1 = User \<and> kind m1 = FeatureRequest
    \<and> findTrigger Uiux (agentOf (proc (seed req p)) Uiux) (board (seed req p))
         (blackboard (seed req p)) = Some m1
    \<and> agentTurn gen Uiux (seed req p, False) = (s1, True)
    \<and> board s1 = [m1, m2] \<and> author m2 = ByAgent Uiux \<and> kind m2 = UiuxSpec
    \<and> findTrigger Frontend (agentOf (proc s1) Frontend) (board s1) (blackboard s1) = Some m2
    \<and> agentTurn gen Frontend (s1, True) = (s2, True)
    \<and> board s2 = [m1, m2, m3] \<and> author m3 = ByAgent Frontend \<and> kind m3 = FrontendPlan
    \<and> findTrigger Backend (agentOf (proc s2) Backend) (board s2) (blackboard s2) = Some m2
    \<and> agentTurn gen Backend (s2, True) = (s3, True)
    \<and> board s3 = [m1, m2, m3, m4] \<and> author m4 = ByAgent Backend \<and> kind m4 = BackendPlan
    \<and> agentsLoop gen agents (seed req p, False) = (s3, True)
    \<and> take 4 (visited (runMultiAgentPipeline gen req p)) = [seed req p, s1, s2, s3]"
proof -
  let ?s0 = "seed req p"
  let ?m1 = "\<lparr>id = nextId p, author = User, kind = FeatureRequest, content = js_trim req\<rparr>"
  let ?bb0 = "emptyBlackboard\<lparr>featureRequest := Some ?m1\<rparr>"
  have i: "\<And>a. iterations (agentOf p a) = 0" and b: "\<And>a. 0 < maxIterations (agentOf p a)"
    using fresh budget by (simp_all add: Suc_le_eq)
  have s0: "board ?s0 = [?m1]" "blackboard ?s0 = ?bb0" "proc ?s0 = p\<lparr>nextId := nextId p + 1\<rparr>"
    by (simp_all add: seed_def createMessage_def Let_def)
  have l0: "\<And>a. iterations (agentOf (proc ?s0) a) < maxIterations (agentOf (proc ?s0) a)"
    by (simp add: s0 i b)
  have t1: "findTrigger Uiux (agentOf (proc ?s0) Uiux) (board ?s0) (blackboard ?s0) = Some ?m1"
    by (simp add: s0 uiuxAgent_findTrigger_def orElse_def)
  obtain m2 p1 where a1: "agentTurn gen Uiux (?s0, False) =
       (\<lparr>board = board ?s0 @ [m2], blackboard = updateBlackboard m2 (blackboard ?s0), proc = p1\<rparr>, True)"
    and m2: "author m2 = ByAgent Uiux" "manifestOutputs Uiux = [kind m2]"
    and p1: "\<And>b. b \<noteq> Uiux \<Longrightarrow> agentOf p1 b = agentOf (proc ?s0) b"
    using agentTurn_acts_obtain[OF t1 l0, of gen False] by blast
  define s1 where "s1 = \<lparr>board = [?m1, m2], blackboard = ?bb0\<lparr>uiuxSpec := Some m2\<rparr>, proc = p1\<rparr>"
  have k2: "kind m2 = UiuxSpec" using m2(2) by simp
  have a1': "agentTurn gen Uiux (?s0, False) = (s1, True)"
    unfolding a1 s1_def by (simp add: s0 updateBlackboard_def k2)
  have t2: "findTrigger Frontend (agentOf (proc s1) Frontend) (board s1) (blackboard s1) = Some m2"
    by (simp add: s1_def m2(1) k2 frontendAgent_findTrigger_def orElse_def)
  have l1: "iterations (agentOf (proc s1) a) < maxIterations (agentOf (proc s1) a)" if "a \<noteq> Uiux" for a
    using p1[OF that] l0[of a] by (simp add: s1_def)
  obtain m3 p2 where a2: "agentTurn gen Frontend (s1, True) =
       (\<lparr>board = board s1 @ [m3], blackboard = updateBlackboard m3 (blackboard s1), proc = p2\<rparr>, True)"
    and m3: "author m3 = ByAgent Frontend" "manifestOutputs Frontend = [kind m3]"
    and p2: "\<And>b. b \<noteq> Frontend \<Longrightarrow> agentOf p2 b = agentOf (proc s1) b"
    using agentTurn_acts_obtain[OF t2 l1, of gen True] by blast
  define s2 where "s2 = \<lparr>board = [?m1, m2, m3],
     blackboard = ?bb0\<lparr>uiuxSpec := Some m2, frontendPlan := Some m3\<rparr>, proc = p2\<rparr>"
  have k3: "kind m3 = FrontendPlan" using m3(2) by simp
  have a2': "agentTurn gen Frontend (s1, True) = (s2, True)"
    unfolding a2 s2_def by (simp add: s1_def updateBlackboard_def k3)
  have t3: "findTrigger Backend (agentOf (proc s2) Backend) (board s2) (blackboard s2) = Some m2"
    by (simp add: s2_def m2(1) k2 m3(1) k3 backendAgent_findTrigger_def orElse_def)
  have l2: "iterations (agentOf (proc s2) Backend) < maxIterations (agentOf (proc s2) Backend)"
    using p2[of Backend] l1[of Backend] by (simp add: s2_def)
  obtain m4 p3 where a3: "agentTurn gen Backend (s2, True) =
       (\<lparr>board = board s2 @ [m4], blackboard = updateBlackboard m4 (blackboard s2), proc = p3\<rparr>, True)"
    and m4: "author m4 = ByAgent Backend" "manifestOutputs Backend = [kind m4]"
    using agentTurn_acts_obtain[OF t3 l2, of gen True] by blast
  define s3 where "s3 = \<lparr>board = [?m1, m2, m3, m4],
     blackboard = updateBlackboard m4 (blackboard s2), proc = p3\<rparr>"
  have k4: "kind m4 = BackendPlan" using m4(2) by simp
  have a3': "agentTurn gen Backend (s2, True) = (s3, True)"
    unfolding a3 s3_def by (simp add: s2_def)
  have loop: "agentsLoop gen agents (?s0, False) = (s3, True)"
    by (simp add: agents_def a1' a2' a3')
  have pts: "agentsPoints gen agents (?s0, False) = [s1, s2, s3]"
    by (simp add: agents_def a1' a2' a3')
  obtain rest where "points (cyclesLoop gen 1 0 ?s0) = [s1, s2, s3] @ rest"
    using cyclesLoop_points_first[of 1 gen 0 ?s0] pts by (auto simp: MAX_GLOBAL_CYCLES_def)
  then have vis: "take 4 (visited (runMultiAgentPipeline gen req p)) = [?s0, s1, s2, s3]"
    by (simp add: runMultiAgentPipeline_def Let_def)
  have b1: "board s1 = [?m1, m2]" and b2: "board s2 = [?m1, m2, m3]"
    and b3: "board s3 = [?m1, m2, m3, m4]"
    by (simp_all add: s1_def s2_def s3_def)
  show ?thesis
    apply (rule exI[of _ ?m1], rule exI[of _ m2], rule exI[of _ m3], rule exI[of _ m4])
    apply (rule exI[of _ s1], rule exI[of _ s2], rule exI[of _ s3])
    using s0(1) t1 a1' b1 m2(1) k2 t2 a2' b2 m3(1) k3 t3 a3' b3 m4(1) k4 loop vis
    apply simp
    done
qed

lemma agentsPoints_last:
  "as \<noteq> [] \<Longrightarrow> last (agentsPoints gen as sp) = fst (agentsLoop gen as sp)"
proof (induction as arbitrary: sp)
  case Nil
  then show ?case by simp
next
  case (Cons a as)
  then show ?case by (cases as) simp_all
qed

lemma agentsPoints_length: "length (agentsPoints gen as sp) = length as"
  by (induction as arbitrary: sp) simp_all

lemma cyclesLoop_last:
  "last (s # points (cyclesLoop gen c i s)) = finalState (cyclesLoop gen c i s)"
proof (induction gen c i s rule: cyclesLoop.induct)
  case (1 gen cycle idleCycles s)
  let ?after = "agentsLoop gen agents (s, False)"
  let ?pts = "agentsPoints gen agents (s, False)"
  have ne: "?pts \<noteq> []" using agentsPoints_length[of gen agents "(s, False)"]
    by (auto simp: agents_def)
  have lp: "last ?pts = fst ?after" by (rule agentsPoints_last) (simp add: agents_def)
  show ?case
  proof (cases "cycle \<le> MAX_GLOBAL_CYCLES")
    case False
    then show ?thesis by (subst (1 2) cyclesLoop.simps) simp
  next
    case True
    note c = True
    show ?thesis
    proof (cases "snd ?after")
      case True
      let ?r = "cyclesLoop gen (cycle + 1) 0 (fst ?after)"
      have e: "cyclesLoop gen cycle idleCycles s
                 = ?r\<lparr>cycleLog := True # cycleLog ?r, points := ?pts @ points ?r\<rparr>"
        using c True by (subst cyclesLoop.simps) (simp add: Let_def)
      have "last (fst ?after # points ?r) = finalState ?r"
        using "1.IH"(2)[OF c refl refl refl] True by simp
      then show ?thesis unfolding e using ne lp by (cases "points ?r = []") simp_all
    next
      case False
      note np = False
      show ?thesis
      proof (cases "idleCycles + 1 \<ge> 3")
        case True
        have e: "cyclesLoop gen cycle idleCycles s
                 = \<lparr>finalState = fst ?after, outcome = IdleStopped, cycleLog = [False],
                    points = ?pts\<rparr>"
          using c np True by (subst cyclesLoop.simps) (simp add: Let_def)
        show ?thesis unfolding e using ne lp by simp
      next
        case False
        let ?r = "cyclesLoop gen (cycle + 1) (idleCycles + 1) (fst ?after)"
        have e: "cyclesLoop gen cycle idleCycles s
                 = ?r\<lparr>cycleLog := False # cycleLog ?r, points := ?pts @ points ?r\<rparr>"
          using c np False by (subst cyclesLoop.simps) (simp add: Let_def)
        have "last (fst ?after # points ?r) = finalState ?r"
          using "1.IH"(1)[OF c refl refl refl] np False by simp
        then show ?thesis unfolding e using ne lp by (cases "points ?r = []") simp_all
      qed
    qed
  qed
qed

lemma final_last_visited:
  "final (runMultiAgentPipeline gen req p) = last (visited (runMultiAgentPipeline gen req p))"
  using cyclesLoop_last[of "seed req p" gen 1 0] by (simp add: runMultiAgentPipeline_def Let_def)

lemma final_in_visited:
  "final (runMultiAgentPipeline gen req p) \<in> set (visited (runMultiAgentPipeline gen req p))"
  unfolding final_last_visited by (rule last_in_set) (simp add: runMultiAgentPipeline_def Let_def)

lemma ids_below_nextId:
  assumes "idsIncrease s" "indexConsistent s" "lookup (blackboard s) k = Some c"
  shows "id c < nextId (proc s)"
proof -
  have "findLastOfKind k (board s) = Some c" using assms(2,3) by (simp add: indexConsistent_def)
  then have "c \<in> set (board s)" using find_SomeD[of "\<lambda>m. kind m = k" "rev (board s)" c]
    by (simp add: findLastOfKind_def)
  then show ?thesis using assms(1) by (simp add: idsIncrease_def)
qed

text \<open>
  Claim C6 fails on the code: the update compares no ids. A spec with id 2 replaces a
  cached spec with id 5, and a feature request with id 9 does not replace a cached one
  with id 1, because the update has no branch for that kind.
\<close>

theorem blackboard_update_ignores_ids_counterexample:
  "uiuxSpec (updateBlackboard
      \<lparr>id = 2, author = ByAgent Uiux, kind = UiuxSpec, content = []\<rparr>
      (emptyBlackboard\<lparr>uiuxSpec :=
         Some \<lparr>id = 5, author = ByAgent Uiux, kind = UiuxSpec, content = []\<rparr>\<rparr>))
     = Some \<lparr>id = 2, author = ByAgent Uiux, kind = UiuxSpec, content = []\<rparr>
   \<and> featureRequest (updateBlackboard
      \<lparr>id = 9, author = User, kind = FeatureRequest, content = []\<rparr>
      (emptyBlackboard\<lparr>featureRequest :=
         Some \<lparr>id = 1, author = User, kind = FeatureRequest, content = []\<rparr>\<rparr>))
     = Some \<lparr>id = 1, author = User, kind = FeatureRequest, content = []\<rparr>"
  by (simp add: updateBlackboard_def emptyBlackboard_def)

text \<open>
  Claim C6, amended: the update after an append stores the new message in the
  blackboard field of its kind whenever the kind is a spec or a plan, whatever id is
  cached there, and changes nothing for a feature request; every other field is left as
  it is. In a run the order of ids holds all the same: the message an agent makes takes
  the id \<open>nextId\<close>, and at every point of a run every cached message has an id below
  \<open>nextId\<close>.
\<close>

theorem blackboard_update_unconditional:
  "lookup (updateBlackboard m bb) k =
     (if k = kind m \<and> k \<noteq> FeatureRequest then Some m else lookup bb k)
   \<and> id (fst (act gen a trg b bb (incrementIterations a q))) = nextId q
   \<and> (\<forall>s \<in> set (visited (runMultiAgentPipeline gen req p)). \<forall>k c.
        lookup (blackboard s) k = Some c \<longrightarrow> id c < nextId (proc s))"
proof (intro conjI ballI allI impI)
  show "lookup (updateBlackboard m bb) k =
     (if k = kind m \<and> k \<noteq> FeatureRequest then Some m else lookup bb k)"
    by (rule lookup_updateBlackboard)
  show "id (fst (act gen a trg b bb (incrementIterations a q))) = nextId q"
    unfolding act_message by (simp add: incrementIterations_def)
next
  fix s k c
  assume "s \<in> set (visited (runMultiAgentPipeline gen req p))" "lookup (blackboard s) k = Some c"
  then show "id c < nextId (proc s)" using ids_index_visited ids_below_nextId by blast
qed

section \<open>Cycles, and calls that throw or never settle\<close>














section \<open>Runs that exhaust the budgets\<close>

lemma hardcodedInput_kept:
  "js_trim hardcodedInput \<noteq> [] \<and> \<not> isExit (js_trim hardcodedInput)"
  by (simp add: hardcodedInput_def js_trim_def isWhiteSpace_def isExit_def)

lemma mainLoop_Suc:
  "mainLoop gen (Suc n) p =
     runMultiAgentPipeline gen (js_trim hardcodedInput) p
     # mainLoop gen n (proc (final (runMultiAgentPipeline gen (js_trim hardcodedInput) p)))"
  using hardcodedInput_kept by (simp add: Let_def)

lemma mainLoop_budget:
  assumes "\<forall>a. maxIterations (agentOf p a) = k"
  shows "\<forall>r \<in> set (mainLoop gen n p). \<forall>s \<in> set (visited r). \<forall>a.
           length (filter (\<lambda>m. author m = ByAgent a) (board s)) \<le> k"
  using assms
proof (induction n arbitrary: p)
  case 0
  then show ?case by simp
next
  case (Suc n)
  let ?r = "runMultiAgentPipeline gen (js_trim hardcodedInput) p"
  have here: "\<forall>s \<in> set (visited ?r). \<forall>a.
                length (filter (\<lambda>m. author m = ByAgent a) (board s)) \<le> k"
    using countsIterations_visited[of gen "js_trim hardcodedInput" p] countsIterations_bound
      Suc.prems by metis
  have "countsIterations p (final ?r)"
    using countsIterations_visited[of gen "js_trim hardcodedInput" p]
      final_in_visited[of gen "js_trim hardcodedInput" p] by blast
  then have "\<forall>a. maxIterations (agentOf (proc (final ?r)) a) = k"
    using Suc.prems by (simp add: countsIterations_def)
  from Suc.IH[OF this] here show ?case by (simp add: mainLoop_Suc del: mainLoop.simps)
qed

text \<open>
  Claim C3: at every point of a run and for every agent, the number of messages on the
  board written by the agent is at most the agent's \<open>maxIterations\<close>, which the run
  never changes; the run may start in any process state. In every run that \<open>main\<close>
  makes, the bound is \<open>MAX_AGENT_ITERATIONS\<close>, that is 3.
\<close>

theorem authored_within_budget:
  "(\<forall>s \<in> set (visited (runMultiAgentPipeline gen req p)). \<forall>a.
      length (filter (\<lambda>m. author m = ByAgent a) (board s)) \<le> maxIterations (agentOf (proc s) a)
      \<and> maxIterations (agentOf (proc s) a) = maxIterations (agentOf p a))
   \<and> (\<forall>r \<in> set (mainLoop gen n initialProcess). \<forall>s \<in> set (visited r). \<forall>a.
        length (filter (\<lambda>m. author m = ByAgent a) (board s)) \<le> MAX_AGENT_ITERATIONS)
   \<and> MAX_AGENT_ITERATIONS = 3"
proof (intro conjI ballI allI)
  fix s a
  assume "s \<in> set (visited (runMultiAgentPipeline gen req p))"
  then have c: "countsIterations p s" using countsIterations_visited by blast
  then have "maxIterations (agentOf (proc s) a) = maxIterations (agentOf p a)"
    by (simp add: countsIterations_def)
  then show "length (filter (\<lambda>m. author m = ByAgent a) (board s)) \<le> maxIterations (agentOf (proc s) a)"
    and "maxIterations (agentOf (proc s) a) = maxIterations (agentOf p a)"
    using countsIterations_bound[OF c, of a] by simp_all
next
  fix r s a
  assume "r \<in> set (mainLoop gen n initialProcess)" "s \<in> set (visited r)"
  moreover have "\<forall>a. maxIterations (agentOf initialProcess a) = MAX_AGENT_ITERATIONS"
    by (simp add: initialProcess_def initialAgent_def)
  ultimately show "length (filter (\<lambda>m. author m = ByAgent a) (board s)) \<le> MAX_AGENT_ITERATIONS"
    using mainLoop_budget[of initialProcess MAX_AGENT_ITERATIONS gen n] by blast
next
  show "MAX_AGENT_ITERATIONS = 3" by (simp add: MAX_AGENT_ITERATIONS_def)
qed

lemma idle_cycle:
  assumes "\<forall>a. maxIterations (agentOf (proc s) a) \<le> iterations (agentOf (proc s) a)"
  shows "agentsLoop gen agents (s, fl) = (s, fl)" and "agentsPoints gen agents (s, fl) = [s, s, s]"
proof -
  have "agentTurn gen a (s, fl) = (s, fl)" for a
    using agentTurn_skip[of a "(s, fl)" gen] assms by simp
  then show "agentsLoop gen agents (s, fl) = (s, fl)" "agentsPoints gen agents (s, fl) = [s, s, s]"
    by (simp_all add: agents_def)
qed

lemma idle_loop:
  assumes ex: "\<forall>a. maxIterations (agentOf (proc s) a) \<le> iterations (agentOf (proc s) a)"
    and c: "c + 2 \<le> MAX_GLOBAL_CYCLES"
  shows "cyclesLoop gen c 0 s =
     \<lparr>finalState = s, outcome = IdleStopped, cycleLog = [False, False, False],
      points = [s, s, s, s, s, s, s, s, s]\<rparr>"
proof -
  have 3: "cyclesLoop gen (c + 2) 2 s =
     \<lparr>finalState = s, outcome = IdleStopped, cycleLog = [False], points = [s, s, s]\<rparr>"
    using c by (subst cyclesLoop.simps) (simp add: idle_cycle[OF ex] Let_def)
  have 2: "cyclesLoop gen (c + 1) 1 s =
     \<lparr>finalState = s, outcome = IdleStopped, cycleLog = [False, False],
      points = [s, s, s, s, s, s]\<rparr>"
    using c 3 by (subst cyclesLoop.simps) (simp add: idle_cycle[OF ex] Let_def add.commute numeral_2_eq_2)
  show ?thesis
    using c 2 by (subst cyclesLoop.simps) (simp add: idle_cycle[OF ex] Let_def)
qed

lemma reportLine_no_messages:
  "filter (\<lambda>m. author m = ByAgent a) (board s) = [] \<Longrightarrow> reportLine s a = NoOutput a"
  by (simp add: reportLine_def Let_def split: option.splits)

lemma exhausted_run:
  assumes "\<forall>a. maxIterations (agentOf p a) \<le> iterations (agentOf p a)"
  shows "final (runMultiAgentPipeline gen req p) = seed req p"
    and "ending (runMultiAgentPipeline gen req p) = IdleStopped"
    and "cycles (runMultiAgentPipeline gen req p) = [False, False, False]"
    and "report (runMultiAgentPipeline gen req p) = [NoOutput Uiux, NoOutput Frontend, NoOutput Backend]"
proof -
  have ex: "\<forall>a. maxIterations (agentOf (proc (seed req p)) a) \<le> iterations (agentOf (proc (seed req p)) a)"
    using assms by (simp add: seed_def createMessage_def Let_def)
  have l: "cyclesLoop gen (Suc 0) 0 (seed req p) =
     \<lparr>finalState = seed req p, outcome = IdleStopped, cycleLog = [False, False, False],
      points = [seed req p, seed req p, seed req p, seed req p, seed req p, seed req p,
                seed req p, seed req p, seed req p]\<rparr>"
    by (rule idle_loop[OF ex]) (simp add: MAX_GLOBAL_CYCLES_def)
  have n: "filter (\<lambda>m. author m = ByAgent a) (board (seed req p)) = []" for a
    by (simp add: seed_def createMessage_def Let_def)
  show "final (runMultiAgentPipeline gen req p) = seed req p"
    and "ending (runMultiAgentPipeline gen req p) = IdleStopped"
    and "cycles (runMultiAgentPipeline gen req p) = [False, False, False]"
    and "report (runMultiAgentPipeline gen req p) = [NoOutput Uiux, NoOutput Frontend, NoOutput Backend]"
    by (simp_all add: runMultiAgentPipeline_def Let_def l reportLine_no_messages[OF n])
qed

lemma uiux_trigger_exists:
  assumes "featureRequest bb \<noteq> None" "iterations ag < maxIterations ag"
  shows "\<exists>trg. findTrigger Uiux ag b bb = Some trg"
  using assms by (auto simp: uiuxAgent_findTrigger_def orElse_def Let_def)

lemma consumer_trigger_exists:
  assumes "uiuxSpec bb \<noteq> None" "iterations ag < maxIterations ag" "a = Frontend \<or> a = Backend"
  shows "\<exists>trg. findTrigger a ag b bb = Some trg"
  using assms
  by (auto simp: frontendAgent_findTrigger_def backendAgent_findTrigger_def orElse_def Let_def)

lemma active_cycle:
  assumes f: "featureRequest (blackboard s) \<noteq> None"
    and l: "\<forall>a. iterations (agentOf (proc s) a) < maxIterations (agentOf (proc s) a)"
  shows "\<exists>s'. agentsLoop gen agents (s, False) = (s', True)
      \<and> featureRequest (blackboard s') \<noteq> None
      \<and> (\<forall>a. iterations (agentOf (proc s') a) = iterations (agentOf (proc s) a) + 1
             \<and> maxIterations (agentOf (proc s') a) = maxIterations (agentOf (proc s) a))"
proof -
  obtain t1 where t1: "findTrigger Uiux (agentOf (proc s) Uiux) (board s) (blackboard s) = Some t1"
    using uiux_trigger_exists[OF f] l by blast
  have l0: "iterations (agentOf (proc s) a) < maxIterations (agentOf (proc s) a)" for a
    using l by simp
  obtain m2 p1 where a1: "agentTurn gen Uiux (s, False) =
       (\<lparr>board = board s @ [m2], blackboard = updateBlackboard m2 (blackboard s), proc = p1\<rparr>, True)"
    and m2: "manifestOutputs Uiux = [kind m2]"
    and p1: "\<And>b. b \<noteq> Uiux \<Longrightarrow> agentOf p1 b = agentOf (proc s) b"
      "maxIterations (agentOf p1 Uiux) = maxIterations (agentOf (proc s) Uiux)"
      "iterations (agentOf p1 Uiux) = iterations (agentOf (proc s) Uiux) + 1"
    using agentTurn_acts_obtain[OF t1 l0, of gen False] by blast
  define s1 where "s1 = \<lparr>board = board s @ [m2],
     blackboard = updateBlackboard m2 (blackboard s), proc = p1\<rparr>"
  have k2: "kind m2 = UiuxSpec" using m2 by simp
  have bb1: "uiuxSpec (blackboard s1) \<noteq> None" "featureRequest (blackboard s1) \<noteq> None"
    using f by (simp_all add: s1_def updateBlackboard_def k2)
  have l1: "iterations (agentOf (proc s1) a) < maxIterations (agentOf (proc s1) a)" if "a \<noteq> Uiux" for a
    using p1(1)[OF that] l0[of a] by (simp add: s1_def)
  obtain t2 where t2: "findTrigger Frontend (agentOf (proc s1) Frontend) (board s1) (blackboard s1) = Some t2"
    using consumer_trigger_exists[OF bb1(1) l1[of Frontend], of Frontend] by auto
  obtain m3 p2 where a2: "agentTurn gen Frontend (s1, True) =
       (\<lparr>board = board s1 @ [m3], blackboard = updateBlackboard m3 (blackboard s1), proc = p2\<rparr>, True)"
    and m3: "manifestOutputs Frontend = [kind m3]"
    and p2: "\<And>b. b \<noteq> Frontend \<Longrightarrow> agentOf p2 b = agentOf (proc s1) b"
      "maxIterations (agentOf p2 Frontend) = maxIterations (agentOf (proc s1) Frontend)"
      "iterations (agentOf p2 Frontend) = iterations (agentOf (proc s1) Frontend) + 1"
    using agentTurn_acts_obtain[OF t2 l1, of gen True] by blast
  define s2 where "s2 = \<lparr>board = board s1 @ [m3],
     blackboard = updateBlackboard m3 (blackboard s1), proc = p2\<rparr>"
  have k3: "kind m3 = FrontendPlan" using m3 by simp
  have bb2: "uiuxSpec (blackboard s2) \<noteq> None" "featureRequest (blackboard s2) \<noteq> None"
    using bb1 by (simp_all add: s2_def updateBlackboard_def k3)
  have l2: "iterations (agentOf (proc s2) Backend) < maxIterations (agentOf (proc s2) Backend)"
    using p2(1)[of Backend] l1[of Backend] by (simp add: s2_def)
  obtain t3 where t3: "findTrigger Backend (agentOf (proc s2) Backend) (board s2) (blackboard s2) = Some t3"
    using consumer_trigger_exists[OF bb2(1) l2, of Backend] by auto
  obtain m4 p3 where a3: "agentTurn gen Backend (s2, True) =
       (\<lparr>board = board s2 @ [m4], blackboard = updateBlackboard m4 (blackboard s2), proc = p3\<rparr>, True)"
    and m4: "manifestOutputs Backend = [kind m4]"
    and p3: "\<And>b. b \<noteq> Backend \<Longrightarrow> agentOf p3 b = agentOf (proc s2) b"
      "maxIterations (agentOf p3 Backend) = maxIterations (agentOf (proc s2) Backend)"
      "iterations (agentOf p3 Backend) = iterations (agentOf (proc s2) Backend) + 1"
    using agentTurn_acts_obtain[OF t3 l2, of gen True] by blast
  define s3 where "s3 = \<lparr>board = board s2 @ [m4],
     blackboard = updateBlackboard m4 (blackboard s2), proc = p3\<rparr>"
  have k4: "kind m4 = BackendPlan" using m4 by simp
  have bb3: "featureRequest (blackboard s3) \<noteq> None"
    using bb2 by (simp add: s3_def updateBlackboard_def k4)
  have loop: "agentsLoop gen agents (s, False) = (s3, True)"
    using a1 a2 a3 by (simp add: agents_def s1_def s2_def s3_def)
  have it: "iterations (agentOf (proc s3) a) = iterations (agentOf (proc s) a) + 1
             \<and> maxIterations (agentOf (proc s3) a) = maxIterations (agentOf (proc s) a)" for a
  proof (cases a)
    case Uiux
    then show ?thesis using p1(2,3) p2(1)[of Uiux] p3(1)[of Uiux] by (simp add: s1_def s2_def s3_def)
  next
    case Frontend
    then show ?thesis using p1(1)[of Frontend] p2(2,3) p3(1)[of Frontend]
      by (simp add: s1_def s2_def s3_def)
  next
    case Backend
    then show ?thesis using p1(1)[of Backend] p2(1)[of Backend] p3(2,3)
      by (simp add: s1_def s2_def s3_def)
  qed
  show ?thesis using loop bb3 it by blast
qed

lemma run_to_exhaustion:
  assumes "featureRequest (blackboard s) \<noteq> None"
    and "\<forall>a. iterations (agentOf (proc s) a) + n = maxIterations (agentOf (proc s) a)"
    and "c + n + 2 \<le> MAX_GLOBAL_CYCLES"
  shows "outcome (cyclesLoop gen c 0 s) = IdleStopped
     \<and> cycleLog (cyclesLoop gen c 0 s) = replicate n True @ [False, False, False]
     \<and> (\<forall>a. iterations (agentOf (proc (finalState (cyclesLoop gen c 0 s))) a)
              = maxIterations (agentOf (proc s) a)
            \<and> maxIterations (agentOf (proc (finalState (cyclesLoop gen c 0 s))) a)
              = maxIterations (agentOf (proc s) a))"
  using assms
proof (induction n arbitrary: c s)
  case 0
  have ex: "\<forall>a. maxIterations (agentOf (proc s) a) \<le> iterations (agentOf (proc s) a)"
    using "0.prems"(2) by simp
  have "c + 2 \<le> MAX_GLOBAL_CYCLES" using "0.prems"(3) by simp
  from idle_loop[OF ex this, of gen] show ?case using "0.prems"(2) by simp
next
  case (Suc n)
  have l: "\<forall>a. iterations (agentOf (proc s) a) < maxIterations (agentOf (proc s) a)"
  proof
    fix a
    have "iterations (agentOf (proc s) a) + Suc n = maxIterations (agentOf (proc s) a)"
      using Suc.prems(2) by blast
    then show "iterations (agentOf (proc s) a) < maxIterations (agentOf (proc s) a)" by linarith
  qed
  obtain s' where s': "agentsLoop gen agents (s, False) = (s', True)"
    "featureRequest (blackboard s') \<noteq> None"
    "\<And>a. iterations (agentOf (proc s') a) = iterations (agentOf (proc s) a) + 1"
    "\<And>a. maxIterations (agentOf (proc s') a) = maxIterations (agentOf (proc s) a)"
    using active_cycle[OF Suc.prems(1) l, of gen] by blast
  have r: "\<forall>a. iterations (agentOf (proc s') a) + n = maxIterations (agentOf (proc s') a)"
  proof
    fix a
    have "iterations (agentOf (proc s) a) + Suc n = maxIterations (agentOf (proc s) a)"
      using Suc.prems(2) by blast
    then show "iterations (agentOf (proc s') a) + n = maxIterations (agentOf (proc s') a)"
      using s'(3)[of a] s'(4)[of a] by simp
  qed
  have c': "(c + 1) + n + 2 \<le> MAX_GLOBAL_CYCLES" using Suc.prems(3) by simp
  have cle: "c \<le> MAX_GLOBAL_CYCLES" using Suc.prems(3) by simp
  let ?r = "cyclesLoop gen (c + 1) 0 s'"
  have e: "cyclesLoop gen c 0 s
             = ?r\<lparr>cycleLog := True # cycleLog ?r,
                  points := agentsPoints gen agents (s, False) @ points ?r\<rparr>"
    using cle s'(1) by (subst cyclesLoop.simps) (simp add: Let_def)
  from Suc.IH[OF s'(2) r c'] show ?case unfolding e using s'(4) by simp
qed

lemma countsIterations_final:
  "countsIterations p (final (runMultiAgentPipeline gen req p))"
  by (rule run_invariant(1)[of "countsIterations p" gen req p])
     (simp_all add: countsIterations_turn countsIterations_seed)

lemma first_run_exhausts:
  "iterations (agentOf (proc (final (runMultiAgentPipeline gen req initialProcess))) a) = 3"
  "maxIterations (agentOf (proc (final (runMultiAgentPipeline gen req initialProcess))) a) = 3"
  "length (filter (\<lambda>m. author m = ByAgent a)
      (board (final (runMultiAgentPipeline gen req initialProcess)))) = 3"
proof -
  let ?s0 = "seed req initialProcess"
  have f: "featureRequest (blackboard ?s0) \<noteq> None"
    by (simp add: seed_def createMessage_def Let_def)
  have i: "\<forall>a. iterations (agentOf (proc ?s0) a) + 3 = maxIterations (agentOf (proc ?s0) a)"
    by (simp add: seed_def createMessage_def Let_def initialProcess_def initialAgent_def
          MAX_AGENT_ITERATIONS_def)
  have c: "1 + 3 + 2 \<le> MAX_GLOBAL_CYCLES" by (simp add: MAX_GLOBAL_CYCLES_def)
  have m: "maxIterations (agentOf (proc ?s0) a) = 3"
    by (simp add: seed_def createMessage_def Let_def initialProcess_def initialAgent_def
          MAX_AGENT_ITERATIONS_def)
  from run_to_exhaustion[OF f i c, of gen]
  show it: "iterations (agentOf (proc (final (runMultiAgentPipeline gen req initialProcess))) a) = 3"
    and "maxIterations (agentOf (proc (final (runMultiAgentPipeline gen req initialProcess))) a) = 3"
    using m by (simp_all add: runMultiAgentPipeline_def Let_def)
  have "length (filter (\<lambda>m. author m = ByAgent a)
          (board (final (runMultiAgentPipeline gen req initialProcess))))
        + iterations (agentOf initialProcess a)
        = iterations (agentOf (proc (final (runMultiAgentPipeline gen req initialProcess))) a)"
    using countsIterations_final[of initialProcess gen req] by (simp add: countsIterations_def)
  then show "length (filter (\<lambda>m. author m = ByAgent a)
      (board (final (runMultiAgentPipeline gen req initialProcess)))) = 3"
    using it by (simp add: initialProcess_def initialAgent_def)
qed

text \<open>
  Claim C5, on the code: the counters \<open>iterations\<close> belong to the module-level agent
  objects and no run resets them. In the first two passes of \<open>main\<close>, whatever the
  service answers, every agent writes three messages in the first run and ends it with
  \<open>iterations = 3\<close>; the second run starts with these counters, no agent acts in it,
  its board holds the feature request alone, it stops after three idle cycles, and its
  report says \<open>no output\<close> for every agent.
\<close>

theorem second_run_starts_exhausted:
  "\<exists>r1 r2. mainLoop gen 2 initialProcess = [r1, r2]
     \<and> (\<forall>a. length (filter (\<lambda>m. author m = ByAgent a) (board (final r1))) = 3)
     \<and> (\<forall>a. iterations (agentOf (proc (final r1)) a) = 3)
     \<and> r2 = runMultiAgentPipeline gen (js_trim hardcodedInput) (proc (final r1))
     \<and> board (final r2) = [\<lparr>id = nextId (proc (final r1)), author = User, kind = FeatureRequest,
                              content = js_trim (js_trim hardcodedInput)\<rparr>]
     \<and> cycles r2 = [False, False, False] \<and> ending r2 = IdleStopped
     \<and> report r2 = [NoOutput Uiux, NoOutput Frontend, NoOutput Backend]
     \<and> (\<forall>a. iterations (agentOf (proc (final r2)) a) = 3)"
proof -
  let ?r1 = "runMultiAgentPipeline gen (js_trim hardcodedInput) initialProcess"
  let ?p1 = "proc (final ?r1)"
  let ?r2 = "runMultiAgentPipeline gen (js_trim hardcodedInput) ?p1"
  have ml: "mainLoop gen 2 initialProcess = [?r1, ?r2]"
    by (simp only: numeral_2_eq_2 mainLoop_Suc mainLoop.simps(1))
  have ex: "\<forall>a. maxIterations (agentOf ?p1 a) \<le> iterations (agentOf ?p1 a)"
    by (simp add: first_run_exhausts)
  have fin: "final ?r2 = seed (js_trim hardcodedInput) ?p1" by (rule exhausted_run(1)[OF ex])
  have b2: "board (final ?r2) = [\<lparr>id = nextId ?p1, author = User, kind = FeatureRequest,
                              content = js_trim (js_trim hardcodedInput)\<rparr>]"
    unfolding fin by (simp add: seed_def createMessage_def Let_def)
  have i2: "\<forall>a. iterations (agentOf (proc (final ?r2)) a) = 3"
    unfolding fin by (simp add: seed_def createMessage_def Let_def first_run_exhausts)
  show ?thesis
    apply (rule exI[of _ ?r1], rule exI[of _ ?r2])
    using ml b2 i2 exhausted_run(2,3,4)[OF ex, of gen "js_trim hardcodedInput"]
    apply (simp add: first_run_exhausts)
    done
qed

section \<open>The summary in the report\<close>










section \<open>Instances\<close>

text \<open>
  The run on the sample request with the sample service, from the state in which the
  module loads: three cycles in which every agent acts, then three idle cycles.
\<close>

lemma sample_run_facts:
  "cycles (runMultiAgentPipeline sampleGen sampleRequest initialProcess)
     = [True, True, True, False, False, False]"
  "map kind (board (final (runMultiAgentPipeline sampleGen sampleRequest initialProcess)))
     = [FeatureRequest, UiuxSpec, FrontendPlan, BackendPlan, UiuxSpec, FrontendPlan, BackendPlan,
        UiuxSpec, FrontendPlan, BackendPlan]"
  "uiuxSpec (blackboard (final (runMultiAgentPipeline sampleGen sampleRequest initialProcess)))
     = Some \<lparr>id = 8, author = ByAgent Uiux, kind = UiuxSpec, content = [0x41, 0x42]\<rparr>"
  "nextId (proc (final (runMultiAgentPipeline sampleGen sampleRequest initialProcess))) = 11"
  "length (visited (runMultiAgentPipeline sampleGen sampleRequest initialProcess)) = 19"
  by code_simp+

text \<open>
  The first cycle of the sample run: the module loads with all counters at 0 and all
  budgets at 3, and the board after the cycle holds the four kinds in order.
\<close>

theorem first_cycle_cascade_witness:
  "(\<forall>a. iterations (agentOf initialProcess a) = 0)
   \<and> (\<forall>a. 1 \<le> maxIterations (agentOf initialProcess a))
   \<and> map kind (board (fst (agentsLoop sampleGen agents (seed sampleRequest initialProcess, False))))
        = [FeatureRequest, UiuxSpec, FrontendPlan, BackendPlan]"
proof -
  have h1: "\<forall>a. iterations (agentOf initialProcess a) = 0"
    by (simp add: initialProcess_def initialAgent_def)
  have h2: "\<forall>a. 1 \<le> maxIterations (agentOf initialProcess a)"
    by (simp add: initialProcess_def initialAgent_def MAX_AGENT_ITERATIONS_def)
  from first_cycle_cascade[OF h1 h2, of sampleRequest sampleGen]
  obtain m1 m2 m3 m4 s3 where
    "kind m1 = FeatureRequest" "kind m2 = UiuxSpec" "kind m3 = FrontendPlan" "kind m4 = BackendPlan"
    "board s3 = [m1, m2, m3, m4]"
    "agentsLoop sampleGen agents (seed sampleRequest initialProcess, False) = (s3, True)"
    by blast
  then show ?thesis using h1 h2 by simp
qed

text \<open>
  At the end of the sample run the blackboard holds the spec with id 8, which is on the
  board, and no spec on the board has a larger id.
\<close>

theorem blackboard_holds_latest_of_each_kind_witness:
  "final (runMultiAgentPipeline sampleGen sampleRequest initialProcess)
     \<in> set (visited (runMultiAgentPipeline sampleGen sampleRequest initialProcess))
   \<and> uiuxSpec (blackboard (final (runMultiAgentPipeline sampleGen sampleRequest initialProcess)))
       = Some \<lparr>id = 8, author = ByAgent Uiux, kind = UiuxSpec, content = [0x41, 0x42]\<rparr>
   \<and> \<lparr>id = 8, author = ByAgent Uiux, kind = UiuxSpec, content = [0x41, 0x42]\<rparr>
       \<in> set (board (final (runMultiAgentPipeline sampleGen sampleRequest initialProcess)))
   \<and> (\<forall>m. \<not> (m \<in> set (board (final (runMultiAgentPipeline sampleGen sampleRequest initialProcess)))
             \<and> kind m = UiuxSpec \<and> 8 < id m))"
proof -
  let ?r = "runMultiAgentPipeline sampleGen sampleRequest initialProcess"
  let ?c = "\<lparr>id = 8, author = ByAgent Uiux, kind = UiuxSpec, content = [0x41, 0x42]\<rparr>"
  have v: "final ?r \<in> set (visited ?r)" by (rule final_in_visited)
  have l: "lookup (blackboard (final ?r)) UiuxSpec = Some ?c" by (simp add: sample_run_facts(3))
  from blackboard_holds_latest_of_each_kind[of sampleGen sampleRequest initialProcess,
      rule_format, OF v, of UiuxSpec]
  have "?c \<in> set (board (final ?r))"
    and "\<forall>m \<in> set (board (final ?r)). kind m = UiuxSpec \<longrightarrow> id m < id ?c \<or> m = ?c"
    unfolding l by simp_all
  then show ?thesis using v sample_run_facts(3) by auto
qed

text \<open>
  At the end of the sample run the backend agent has at most three messages on the board,
  and its budget is still \<open>MAX_AGENT_ITERATIONS\<close>.
\<close>

theorem authored_within_budget_witness:
  "final (runMultiAgentPipeline sampleGen sampleRequest initialProcess)
     \<in> set (visited (runMultiAgentPipeline sampleGen sampleRequest initialProcess))
   \<and> length (filter (\<lambda>m. author m = ByAgent Backend)
        (board (final (runMultiAgentPipeline sampleGen sampleRequest initialProcess)))) \<le> 3
   \<and> maxIterations (agentOf (proc (final (runMultiAgentPipeline sampleGen sampleRequest
        initialProcess))) Backend) = MAX_AGENT_ITERATIONS"
proof -
  let ?r = "runMultiAgentPipeline sampleGen sampleRequest initialProcess"
  have v: "final ?r \<in> set (visited ?r)" by (rule final_in_visited)
  from authored_within_budget[of sampleGen sampleRequest initialProcess]
  have "\<forall>s \<in> set (visited ?r). \<forall>a.
      length (filter (\<lambda>m. author m = ByAgent a) (board s)) \<le> maxIterations (agentOf (proc s) a)
      \<and> maxIterations (agentOf (proc s) a) = maxIterations (agentOf initialProcess a)"
    by blast
  then have "length (filter (\<lambda>m. author m = ByAgent Backend) (board (final ?r)))
        \<le> maxIterations (agentOf (proc (final ?r)) Backend)
      \<and> maxIterations (agentOf (proc (final ?r)) Backend)
        = maxIterations (agentOf initialProcess Backend)"
    using v by blast
  then show ?thesis using v
    by (simp add: initialProcess_def initialAgent_def MAX_AGENT_ITERATIONS_def)
qed


text \<open>
  At the end of the sample run the message at position 2 is a frontend plan, and a spec
  stands before it.
\<close>

theorem plans_follow_spec_witness:
  "final (runMultiAgentPipeline sampleGen sampleRequest initialProcess)
     \<in> set (visited (runMultiAgentPipeline sampleGen sampleRequest initialProcess))
   \<and> kind (board (final (runMultiAgentPipeline sampleGen sampleRequest initialProcess)) ! 2)
       = FrontendPlan
   \<and> (\<exists>j < 2. kind (board (final (runMultiAgentPipeline sampleGen sampleRequest initialProcess)) ! j)
         = UiuxSpec)"
proof -
  let ?r = "runMultiAgentPipeline sampleGen sampleRequest initialProcess"
  have v: "final ?r \<in> set (visited ?r)" by (rule final_in_visited)
  have len: "length (board (final ?r)) = 10"
    using arg_cong[OF sample_run_facts(2), of length] by simp
  have k: "kind (board (final ?r) ! 2) = FrontendPlan"
    using arg_cong[OF sample_run_facts(2), of "\<lambda>l. l ! 2"] len by (simp add: nth_map)
  have i: "2 < length (board (final ?r))" using len by simp
  from plans_follow_spec[of sampleGen sampleRequest initialProcess, rule_format, OF v i] k
  show ?thesis using v by simp
qed

text \<open>
  At the end of the sample run the cached spec has id 8, below \<open>nextId\<close>.
\<close>

theorem blackboard_update_unconditional_witness:
  "final (runMultiAgentPipeline sampleGen sampleRequest initialProcess)
     \<in> set (visited (runMultiAgentPipeline sampleGen sampleRequest initialProcess))
   \<and> lookup (blackboard (final (runMultiAgentPipeline sampleGen sampleRequest initialProcess))) UiuxSpec
       = Some \<lparr>id = 8, author = ByAgent Uiux, kind = UiuxSpec, content = [0x41, 0x42]\<rparr>
   \<and> 8 < nextId (proc (final (runMultiAgentPipeline sampleGen sampleRequest initialProcess)))"
proof -
  let ?r = "runMultiAgentPipeline sampleGen sampleRequest initialProcess"
  let ?c = "\<lparr>id = 8, author = ByAgent Uiux, kind = UiuxSpec, content = [0x41, 0x42]\<rparr>"
  have v: "final ?r \<in> set (visited ?r)" by (rule final_in_visited)
  have l: "lookup (blackboard (final ?r)) UiuxSpec = Some ?c" by (simp add: sample_run_facts(3))
  from blackboard_update_unconditional[of _ _ _ sampleGen _ _ _ _ sampleRequest initialProcess]
  have "\<forall>s \<in> set (visited ?r). \<forall>k c. lookup (blackboard s) k = Some c \<longrightarrow> id c < nextId (proc s)"
    by blast
  then have "id ?c < nextId (proc (final ?r))" using v l by blast
  then show ?thesis using v l by simp
qed


end
